theory Spec2Isabelle
  imports Complex_Main "HOL-Library.Word"
begin

section \<open>JavaScript numbers\<close>

text \<open>
  A JavaScript number is an IEEE 754 double: a finite value, one of the two infinities, or
  NaN.  Every arithmetic operation rounds its exact result to the nearest double, ties to
  the even significand, and overflows to an infinity.  A \<^verbatim>\<open>Float32Array\<close> rounds what is stored
  in it once more, to single precision.  The sign of zero is not kept: no operation of the
  code modelled here can tell the two zeros apart.
\<close>

datatype number = Finite real | PosInf | NegInf | NaN

text \<open>Rounding a real to the nearest integer, ties to the even one.\<close>

definition rne :: "real \<Rightarrow> int" where
  "rne x =
     (let f = \<lfloor>x\<rfloor>; r = x - of_int f
      in if r < 1 / 2 then f else if 1 / 2 < r then f + 1 else if even f then f else f + 1)"

text \<open>The binary exponent of a non-zero real: \<open>2 ^ e \<le> |x| < 2 ^ (e + 1)\<close>.\<close>

definition ilog2 :: "real \<Rightarrow> int" where
  "ilog2 x = \<lfloor>log 2 \<bar>x\<bar>\<rfloor>"

text \<open>
  Rounding to a binary format with \<open>p\<close> significand bits and exponents from \<open>emin\<close> to
  \<open>emax\<close>.  The spacing of the format at \<open>x\<close> is \<open>2 ^ quantum\<close>, fixed below \<open>2 ^ emin\<close> (the
  subnormal range); a rounded value of magnitude \<open>2 ^ (emax + 1)\<close> or more is an infinity.
\<close>

definition quantum :: "nat \<Rightarrow> int \<Rightarrow> real \<Rightarrow> int" where
  "quantum p emin x = max (ilog2 x) emin - int p + 1"

definition rounded :: "nat \<Rightarrow> int \<Rightarrow> real \<Rightarrow> real" where
  "rounded p emin x = of_int (rne (x / 2 powi quantum p emin x)) * 2 powi quantum p emin x"

definition round_to :: "nat \<Rightarrow> int \<Rightarrow> int \<Rightarrow> real \<Rightarrow> number" where
  "round_to p emin emax x =
     (if x = 0 then Finite 0
      else if 2 powi (emax + 1) \<le> \<bar>rounded p emin x\<bar>
           then (if 0 < x then PosInf else NegInf)
           else Finite (rounded p emin x))"

definition fl64 :: "real \<Rightarrow> number" where
  "fl64 = round_to 53 (- 1022) 1023"

definition fl32 :: "real \<Rightarrow> number" where
  "fl32 = round_to 24 (- 126) 127"

text \<open>The conversion of a number on being stored in a \<^verbatim>\<open>Float32Array\<close>.\<close>

fun to_f32 :: "number \<Rightarrow> number" where
  "to_f32 (Finite x) = fl32 x"
| "to_f32 PosInf = PosInf"
| "to_f32 NegInf = NegInf"
| "to_f32 NaN = NaN"

fun n_neg :: "number \<Rightarrow> number" where
  "n_neg (Finite x) = Finite (- x)"
| "n_neg PosInf = NegInf"
| "n_neg NegInf = PosInf"
| "n_neg NaN = NaN"

fun n_add :: "number \<Rightarrow> number \<Rightarrow> number" where
  "n_add (Finite x) (Finite y) = fl64 (x + y)"
| "n_add NaN _ = NaN"
| "n_add _ NaN = NaN"
| "n_add PosInf NegInf = NaN"
| "n_add NegInf PosInf = NaN"
| "n_add PosInf _ = PosInf"
| "n_add NegInf _ = NegInf"
| "n_add _ PosInf = PosInf"
| "n_add _ NegInf = NegInf"

definition n_sub :: "number \<Rightarrow> number \<Rightarrow> number" where
  "n_sub a b = n_add a (n_neg b)"

text \<open>The sign of a number that is not NaN, as \<open>-1\<close>, \<open>0\<close> or \<open>1\<close>.\<close>

fun n_sgn :: "number \<Rightarrow> real" where
  "n_sgn (Finite x) = sgn x"
| "n_sgn PosInf = 1"
| "n_sgn NegInf = - 1"
| "n_sgn NaN = 0"

definition signed_inf :: "real \<Rightarrow> number" where
  "signed_inf s = (if s = 0 then NaN else if 0 < s then PosInf else NegInf)"

fun n_mul :: "number \<Rightarrow> number \<Rightarrow> number" where
  "n_mul (Finite x) (Finite y) = fl64 (x * y)"
| "n_mul NaN _ = NaN"
| "n_mul _ NaN = NaN"
| "n_mul a b = signed_inf (n_sgn a * n_sgn b)"

fun n_div :: "number \<Rightarrow> number \<Rightarrow> number" where
  "n_div (Finite x) (Finite y) = (if y = 0 then signed_inf (sgn x) else fl64 (x / y))"
| "n_div NaN _ = NaN"
| "n_div _ NaN = NaN"
| "n_div (Finite x) _ = Finite 0"
| "n_div a (Finite y) = signed_inf (n_sgn a * (if y < 0 then - 1 else 1))"
| "n_div _ _ = NaN"

fun n_sqrt :: "number \<Rightarrow> number" where
  "n_sqrt (Finite x) = (if x < 0 then NaN else fl64 (sqrt x))"
| "n_sqrt PosInf = PosInf"
| "n_sqrt NegInf = NaN"
| "n_sqrt NaN = NaN"

text \<open>The comparisons of numbers; every comparison with NaN is false.\<close>

fun n_less :: "number \<Rightarrow> number \<Rightarrow> bool" where
  "n_less (Finite x) (Finite y) = (x < y)"
| "n_less NaN _ = False"
| "n_less _ NaN = False"
| "n_less _ NegInf = False"
| "n_less PosInf _ = False"
| "n_less _ _ = True"

definition n_le :: "number \<Rightarrow> number \<Rightarrow> bool" where
  "n_le a b \<longleftrightarrow> a \<noteq> NaN \<and> b \<noteq> NaN \<and> (a = b \<or> n_less a b)"

text \<open>A literal of the program text denotes the double nearest to it.\<close>

definition literal :: "real \<Rightarrow> number" where
  "literal x = fl64 x"

text \<open>Whether a number is greater than zero, as a sort comparator's result is tested.\<close>

fun is_pos :: "number \<Rightarrow> bool" where
  "is_pos (Finite x) = (0 < x)"
| "is_pos PosInf = True"
| "is_pos NegInf = False"
| "is_pos NaN = False"

text \<open>The non-negative numbers, and the multiples of the smallest spacing of a format.\<close>

fun nonneg :: "number \<Rightarrow> bool" where
  "nonneg (Finite x) = (0 \<le> x)"
| "nonneg PosInf = True"
| "nonneg NegInf = False"
| "nonneg NaN = False"

definition on_grid :: "nat \<Rightarrow> int \<Rightarrow> real \<Rightarrow> bool" where
  "on_grid p emin x \<longleftrightarrow> x / 2 powi (emin - int p + 1) \<in> \<int>"

fun is_finite :: "number \<Rightarrow> bool" where
  "is_finite (Finite x) = True"
| "is_finite PosInf = False"
| "is_finite NegInf = False"
| "is_finite NaN = False"

text \<open>
  \<^verbatim>\<open>Array.prototype.sort\<close> with a comparator is a stable sort: an element stays in front of
  a later one unless the comparator's result for the pair is greater than zero.  Where the
  comparator is not a consistent order (it returns NaN for some pairs but not others) the
  language leaves the result to the implementation; the model then still inserts by this rule.
\<close>

fun insert_sorted :: "('a \<Rightarrow> 'a \<Rightarrow> number) \<Rightarrow> 'a \<Rightarrow> 'a list \<Rightarrow> 'a list" where
  "insert_sorted cmp x [] = [x]"
| "insert_sorted cmp x (y # ys) =
     (if is_pos (cmp x y) then y # insert_sorted cmp x ys else x # y # ys)"

definition array_sort :: "('a \<Rightarrow> 'a \<Rightarrow> number) \<Rightarrow> 'a list \<Rightarrow> 'a list" where
  "array_sort cmp xs = foldr (insert_sorted cmp) xs []"

section \<open>Skeleton builder: distance-based auto-skinning\<close>

text \<open>
  The embedding of \<^verbatim>\<open>SkeletonBuilder.autoSkin\<close>, in the arithmetic of JavaScript numbers.
  The influence count \<^verbatim>\<open>maxInfluences\<close> is a natural number.
\<close>

datatype 'a Vector3 = Vector3 (vx: 'a) (vy: 'a) (vz: 'a)

text \<open>
  The library's \<^verbatim>\<open>Vector3.distanceToSquared\<close> and \<^verbatim>\<open>Vector3.distanceTo\<close>: the three
  differences, the sum of their squares from left to right, and \<^verbatim>\<open>Math.sqrt\<close> of it, taken as
  correctly rounded.
\<close>

definition distanceToSquared :: "number Vector3 \<Rightarrow> number Vector3 \<Rightarrow> number" where
  "distanceToSquared a b =
     (let dx = n_sub (vx a) (vx b); dy = n_sub (vy a) (vy b); dz = n_sub (vz a) (vz b)
      in n_add (n_add (n_mul dx dx) (n_mul dy dy)) (n_mul dz dz))"

definition distanceTo :: "number Vector3 \<Rightarrow> number Vector3 \<Rightarrow> number" where
  "distanceTo a b = n_sqrt (distanceToSquared a b)"

text \<open>A bone, with the world position that \<^verbatim>\<open>getWorldPosition\<close> reports for it.\<close>

datatype Bone = Bone (bone_name: string) (getWorldPosition: "number Vector3")

record Skeleton =
  bones :: "Bone list"

text \<open>
  The attributes of a geometry that the function reads and writes.  The position attribute
  holds one vector per vertex; the two skinning attributes are flat arrays with an item
  size.  A \<^verbatim>\<open>Uint16Array\<close> keeps every number modulo \<open>2 ^ 16\<close>, a \<^verbatim>\<open>Float32Array\<close> rounds
  every number to single precision.
\<close>

datatype Uint16BufferAttribute =
  Uint16BufferAttribute (u16_array: "16 word list") (u16_itemSize: nat)

datatype Float32BufferAttribute =
  Float32BufferAttribute (f32_array: "number list") (f32_itemSize: nat)

definition new_Uint16BufferAttribute :: "nat list \<Rightarrow> nat \<Rightarrow> Uint16BufferAttribute" where
  "new_Uint16BufferAttribute array itemSize = Uint16BufferAttribute (map of_nat array) itemSize"

definition new_Float32BufferAttribute :: "number list \<Rightarrow> nat \<Rightarrow> Float32BufferAttribute" where
  "new_Float32BufferAttribute array itemSize = Float32BufferAttribute (map to_f32 array) itemSize"

record BufferGeometry =
  position :: "number Vector3 list option"
  skinIndex :: "Uint16BufferAttribute option"
  skinWeight :: "Float32BufferAttribute option"

record entry =
  index :: nat
  distance :: number

text \<open>Lines 292-297: the world position of every bone, in the order of the bone array.\<close>

definition bonePositions_of :: "Skeleton \<Rightarrow> number Vector3 list" where
  "bonePositions_of skeleton = map getWorldPosition (bones skeleton)"

text \<open>Lines 309-318: one entry per bone index whose position is defined.\<close>

definition distances_of :: "number Vector3 \<Rightarrow> number Vector3 list \<Rightarrow> nat \<Rightarrow> entry list" where
  "distances_of vertex bonePositions boneCount =
     map (\<lambda>j. \<lparr>index = j, distance = distanceTo vertex (bonePositions ! j)\<rparr>)
       (filter (\<lambda>j. j < length bonePositions) [0..<boneCount])"

text \<open>
  Lines 321-322: the sort with the comparator \<^verbatim>\<open>a.distance - b.distance\<close>, and
  \<^verbatim>\<open>slice(0, maxInfluences)\<close>, which keeps a prefix.
\<close>

definition compare_distance :: "entry \<Rightarrow> entry \<Rightarrow> number" where
  "compare_distance a b = n_sub (distance a) (distance b)"

definition closest_of :: "number Vector3 \<Rightarrow> number Vector3 list \<Rightarrow> nat \<Rightarrow> nat \<Rightarrow> entry list" where
  "closest_of vertex bonePositions boneCount maxInfluences =
     take maxInfluences
       (array_sort compare_distance (distances_of vertex bonePositions boneCount))"

text \<open>Lines 325-332: the raw inverse-distance weights and their running total.\<close>

definition raw_weight :: "number \<Rightarrow> number" where
  "raw_weight d = n_div (Finite 1) (n_add d (literal 0.001))"

definition weights_of :: "entry list \<Rightarrow> number list" where
  "weights_of closest = map (\<lambda>e. raw_weight (distance e)) closest"

definition totalWeight_of :: "entry list \<Rightarrow> number" where
  "totalWeight_of closest = foldl n_add (Finite 0) (weights_of closest)"

text \<open>Lines 335-345: the \<^verbatim>\<open>maxInfluences\<close> slots of one vertex, normalised or padded.\<close>

definition influence_slot :: "entry list \<Rightarrow> nat \<Rightarrow> nat \<times> number" where
  "influence_slot closest j =
     (let weights = weights_of closest; totalWeight = totalWeight_of closest
      in if j < length closest \<and> j < length weights
         then (index (closest ! j), n_div (weights ! j) totalWeight)
         else (0, Finite 0))"

definition vertex_influences ::
  "number Vector3 \<Rightarrow> number Vector3 list \<Rightarrow> nat \<Rightarrow> nat \<Rightarrow> (nat \<times> number) list" where
  "vertex_influences vertex bonePositions boneCount maxInfluences =
     map (influence_slot (closest_of vertex bonePositions boneCount maxInfluences))
       [0..<maxInfluences]"

text \<open>Lines 305-346: the loop over the vertices, pushing onto the two arrays.\<close>

fun skin_loop ::
  "number Vector3 list \<Rightarrow> number Vector3 list \<Rightarrow> nat \<Rightarrow> nat \<Rightarrow> nat list \<times> number list
     \<Rightarrow> nat list \<times> number list"
where
  "skin_loop [] bonePositions boneCount maxInfluences (skinIndices, skinWeights) =
     (skinIndices, skinWeights)"
| "skin_loop (vertex # rest) bonePositions boneCount maxInfluences (skinIndices, skinWeights) =
     (let slots = vertex_influences vertex bonePositions boneCount maxInfluences
      in skin_loop rest bonePositions boneCount maxInfluences
           (skinIndices @ map fst slots, skinWeights @ map snd slots))"

definition autoSkin :: "BufferGeometry \<Rightarrow> Skeleton \<Rightarrow> nat \<Rightarrow> BufferGeometry" where
  "autoSkin geometry skeleton maxInfluences =
     (case position geometry of
        None \<Rightarrow> geometry
      | Some positions \<Rightarrow>
          (let boneCount = length (bones skeleton);
               bonePositions = bonePositions_of skeleton;
               (skinIndices, skinWeights) =
                  skin_loop positions bonePositions boneCount maxInfluences ([], [])
           in geometry
                \<lparr> skinIndex := Some (new_Uint16BufferAttribute skinIndices maxInfluences),
                  skinWeight := Some (new_Float32BufferAttribute skinWeights maxInfluences) \<rparr>))"

text \<open>The entries a run leaves for vertex \<open>v\<close>: the slice \<open>v * k ..< v * k + k\<close> of each array.\<close>

definition written_indices :: "BufferGeometry \<Rightarrow> nat \<Rightarrow> nat \<Rightarrow> 16 word list" where
  "written_indices geometry k v =
     (case skinIndex geometry of None \<Rightarrow> [] | Some a \<Rightarrow> take k (drop (v * k) (u16_array a)))"

definition written_weights :: "BufferGeometry \<Rightarrow> nat \<Rightarrow> nat \<Rightarrow> number list" where
  "written_weights geometry k v =
     (case skinWeight geometry of None \<Rightarrow> [] | Some a \<Rightarrow> take k (drop (v * k) (f32_array a)))"

text \<open>
  The order the selection realises: the smaller computed distance first, and the smaller bone
  index first where the computed distances are equal.
\<close>

definition closer :: "entry \<Rightarrow> entry \<Rightarrow> bool" where
  "closer e e' \<longleftrightarrow>
     n_less (distance e) (distance e') \<or> (distance e = distance e' \<and> index e < index e')"

text \<open>
  The inputs whose coordinates are all finite numbers, and the exact Euclidean distance of
  two such points, a real number that the program does not compute.
\<close>

definition finite_vec :: "number Vector3 \<Rightarrow> bool" where
  "finite_vec a \<longleftrightarrow> is_finite (vx a) \<and> is_finite (vy a) \<and> is_finite (vz a)"

fun the_real :: "number \<Rightarrow> real" where
  "the_real (Finite x) = x"
| "the_real PosInf = 0"
| "the_real NegInf = 0"
| "the_real NaN = 0"

definition euclidean :: "number Vector3 \<Rightarrow> number Vector3 \<Rightarrow> real" where
  "euclidean a b =
     sqrt ((the_real (vx a) - the_real (vx b))\<^sup>2 + (the_real (vy a) - the_real (vy b))\<^sup>2
           + (the_real (vz a) - the_real (vz b))\<^sup>2)"

text \<open>What a computed distance can be when no coordinate is NaN or infinite.\<close>

definition dist_ok :: "number \<Rightarrow> bool" where
  "dist_ok d \<longleftrightarrow> d = PosInf \<or> (\<exists>r. d = Finite r \<and> 0 \<le> r \<and> on_grid 53 (- 1022) r)"

section \<open>Plugin manager\<close>

text \<open>
  The embedding of \<^verbatim>\<open>PluginManager\<close>.  A lifecycle hook of a plugin is modelled by its
  outcome, the promise resolving or rejecting with a reason; an \<^verbatim>\<open>await\<close> is the sequential
  call.  A hook that calls back into the manager while it runs is outside the model.
\<close>

datatype PluginType = generator | processor | exporter | integration

datatype PluginErrorCode =
    INIT_FAILED | ALREADY_REGISTERED | NOT_FOUND | INVALID_STATE
  | GENERATION_FAILED | PROCESSING_FAILED | EXPORT_FAILED | SYNC_FAILED

datatype hook_outcome = Resolves | Rejects string

record Plugin =
  plugin_id :: string
  plugin_name :: string
  plugin_version :: string
  plugin_type :: PluginType
  onInit :: hook_outcome
  onDestroy :: hook_outcome

text \<open>\<^verbatim>\<open>PluginError\<close>: the constructor prefixes the message with the plugin id in brackets.\<close>

record PluginError =
  pluginId :: string
  code :: PluginErrorCode
  message :: string
  originalCause :: "string option"

definition new_PluginError ::
  "string \<Rightarrow> PluginErrorCode \<Rightarrow> string \<Rightarrow> string option \<Rightarrow> PluginError" where
  "new_PluginError pid c msg cause =
     \<lparr>pluginId = pid, code = c, message = ''['' @ pid @ ''] '' @ msg, originalCause = cause\<rparr>"

text \<open>
  The manager: the \<^verbatim>\<open>Map\<close> of plugins as an association list in insertion order, the
  initialization order, and the lines written to the console.
\<close>

record PluginManager =
  plugins :: "(string \<times> Plugin) list"
  initializationOrder :: "string list"
  console :: "string list"

text \<open>\<^verbatim>\<open>Map.set\<close> replaces the value of a present key in place and appends a new key.\<close>

fun map_set :: "'k \<Rightarrow> 'v \<Rightarrow> ('k \<times> 'v) list \<Rightarrow> ('k \<times> 'v) list" where
  "map_set k v [] = [(k, v)]"
| "map_set k v ((k', v') # kvs) =
     (if k' = k then (k, v) # kvs else (k', v') # map_set k v kvs)"

definition map_delete :: "'k \<Rightarrow> ('k \<times> 'v) list \<Rightarrow> ('k \<times> 'v) list" where
  "map_delete k kvs = filter (\<lambda>kv. fst kv \<noteq> k) kvs"

definition get :: "PluginManager \<Rightarrow> string \<Rightarrow> Plugin option" where
  "get m pid = map_of (plugins m) pid"

definition has :: "PluginManager \<Rightarrow> string \<Rightarrow> bool" where
  "has m pid = (map_of (plugins m) pid \<noteq> None)"

definition count :: "PluginManager \<Rightarrow> nat" where
  "count m = length (plugins m)"

text \<open>\<^verbatim>\<open>register\<close>, lines 31-54.  The result pairs what the call throws or returns with the manager after it.\<close>

definition register :: "PluginManager \<Rightarrow> Plugin \<Rightarrow> (PluginError + unit) \<times> PluginManager" where
  "register m plugin =
     (if has m (plugin_id plugin)
      then (Inl (new_PluginError (plugin_id plugin) ALREADY_REGISTERED
                  (''Plugin \"'' @ plugin_id plugin @ ''\" is already registered'') None), m)
      else (case onInit plugin of
              Resolves \<Rightarrow>
                (Inr (),
                 m\<lparr>plugins := map_set (plugin_id plugin) plugin (plugins m),
                   initializationOrder := initializationOrder m @ [plugin_id plugin],
                   console := console m @
                     [''[PluginManager] Registered plugin: '' @ plugin_name plugin @
                      '' ('' @ plugin_id plugin @ '')'']\<rparr>)
            | Rejects reason \<Rightarrow>
                (Inl (new_PluginError (plugin_id plugin) INIT_FAILED
                       (''Failed to initialize plugin \"'' @ plugin_id plugin @ ''\"'')
                       (Some reason)), m)))"

text \<open>\<^verbatim>\<open>unregister\<close>, lines 59-76: both the \<^verbatim>\<open>try\<close> and the \<^verbatim>\<open>catch\<close> branch remove the plugin.\<close>

definition unregister :: "PluginManager \<Rightarrow> string \<Rightarrow> (PluginError + unit) \<times> PluginManager" where
  "unregister m pid =
     (case get m pid of
        None \<Rightarrow>
          (Inl (new_PluginError pid NOT_FOUND
                 (''Plugin \"'' @ pid @ ''\" not found'') None), m)
      | Some plugin \<Rightarrow>
          (case onDestroy plugin of
             Resolves \<Rightarrow>
               (Inr (),
                m\<lparr>plugins := map_delete pid (plugins m),
                  initializationOrder := filter (\<lambda>id'. id' \<noteq> pid) (initializationOrder m),
                  console := console m @ [''[PluginManager] Unregistered plugin: '' @ pid]\<rparr>)
           | Rejects reason \<Rightarrow>
               (Inr (),
                m\<lparr>console := console m @
                    [''[PluginManager] Error destroying plugin '' @ pid @ '': '' @ reason],
                  plugins := map_delete pid (plugins m),
                  initializationOrder :=
                    filter (\<lambda>id'. id' \<noteq> pid) (initializationOrder m)\<rparr>)))"

text \<open>A plugin whose hooks both reject, one whose hooks resolve, and a manager holding the first.\<close>

definition failing_plugin :: Plugin where
  "failing_plugin =
     \<lparr>plugin_id = ''broken'', plugin_name = ''Broken'', plugin_version = ''1.0.0'',
      plugin_type = processor, onInit = Rejects ''no init'', onDestroy = Rejects ''no destroy''\<rparr>"

definition working_plugin :: Plugin where
  "working_plugin =
     \<lparr>plugin_id = ''humanoid-generator'', plugin_name = ''Humanoid Generator'',
      plugin_version = ''1.0.0'', plugin_type = generator,
      onInit = Resolves, onDestroy = Resolves\<rparr>"

definition example_manager :: PluginManager where
  "example_manager =
     \<lparr>plugins = [(''humanoid-generator'', working_plugin)],
      initializationOrder = [''humanoid-generator''], console = []\<rparr>"

definition manager_with_broken :: PluginManager where
  "manager_with_broken =
     \<lparr>plugins = [(''humanoid-generator'', working_plugin), (''broken'', failing_plugin)],
      initializationOrder = [''humanoid-generator'', ''broken''], console = []\<rparr>"

section \<open>Concrete inputs\<close>

text \<open>
  A two-vertex geometry and skeletons to run the model on: three bones on the x axis; one
  bone, and two bones, so far away that the square of the distance overflows; and two bones
  whose distances from the origin differ by less than the arithmetic resolves.
\<close>

definition example_geometry :: BufferGeometry where
  "example_geometry =
     \<lparr>position = Some [Vector3 (Finite 0) (Finite 0) (Finite 0), Vector3 (Finite 1) (Finite 0) (Finite 0)],
      skinIndex = None, skinWeight = None\<rparr>"

definition example_skeleton :: Skeleton where
  "example_skeleton =
     \<lparr>bones = [Bone ''root'' (Vector3 (Finite 2) (Finite 0) (Finite 0)),
               Bone ''spine'' (Vector3 (Finite 1) (Finite 0) (Finite 0)),
               Bone ''head'' (Vector3 (Finite (- 1)) (Finite 0) (Finite 0))]\<rparr>"

definition far_away :: real where
  "far_away = 2 ^ 600"

definition farther_away :: real where
  "farther_away = 2 ^ 601"

definition hair :: real where
  "hair = 1 / 2 ^ 20"

definition far_skeleton :: Skeleton where
  "far_skeleton = \<lparr>bones = [Bone ''far'' (Vector3 (Finite far_away) (Finite 0) (Finite 0))]\<rparr>"

definition far_pair_skeleton :: Skeleton where
  "far_pair_skeleton =
     \<lparr>bones = [Bone ''far'' (Vector3 (Finite far_away) (Finite 0) (Finite 0)),
               Bone ''farther'' (Vector3 (Finite farther_away) (Finite 0) (Finite 0))]\<rparr>"

definition near_skeleton :: Skeleton where
  "near_skeleton =
     \<lparr>bones = [Bone ''off_axis'' (Vector3 (Finite 1024) (Finite hair) (Finite 0)),
               Bone ''on_axis'' (Vector3 (Finite 1024) (Finite 0) (Finite 0))]\<rparr>"

section \<open>Properties of rounding\<close>

lemma rne_cases: "rne x = \<lfloor>x\<rfloor> \<or> rne x = \<lfloor>x\<rfloor> + 1"
  by (simp add: rne_def Let_def)

lemma rne_error: "\<bar>of_int (rne x) - x\<bar> \<le> 1 / 2"
  unfolding rne_def Let_def by (auto simp: abs_if) linarith+

lemma rne_of_int [simp]: "rne (of_int n) = n"
  by (simp add: rne_def)

lemma rne_mono: "x \<le> y \<Longrightarrow> rne x \<le> rne y"
proof -
  assume xy: "x \<le> y"
  then have f: "\<lfloor>x\<rfloor> \<le> \<lfloor>y\<rfloor>" by (rule floor_mono)
  show ?thesis
  proof (cases "\<lfloor>x\<rfloor> = \<lfloor>y\<rfloor>")
    case True
    with xy show ?thesis unfolding rne_def Let_def by (auto simp: not_less) 
  next
    case False
    with f have "\<lfloor>x\<rfloor> + 1 \<le> \<lfloor>y\<rfloor>" by simp
    then show ?thesis using rne_cases [of x] rne_cases [of y] by linarith
  qed
qed

lemma rne_ge_int: "of_int n \<le> x \<Longrightarrow> n \<le> rne x"
  using rne_mono [of "of_int n" x] by simp

lemma rne_le_int: "x \<le> of_int n \<Longrightarrow> rne x \<le> n"
  using rne_mono [of x "of_int n"] by simp

lemma powr_powi: "(2::real) powr (of_int e) = 2 powi e"
  by (simp add: powr_real_of_int')

lemma powr_powi_Suc: "(2::real) powr (of_int e + 1) = 2 powi (e + 1)"
  using powr_powi [of "e + 1"] by simp

lemma ilog2_bounds:
  assumes "x \<noteq> 0"
  shows "2 powi (ilog2 x) \<le> \<bar>x\<bar>" and "\<bar>x\<bar> < 2 powi (ilog2 x + 1)"
proof -
  have pos: "0 < \<bar>x\<bar>" using assms by simp
  have "2 powr (of_int (ilog2 x)) \<le> \<bar>x\<bar> \<and> \<bar>x\<bar> < 2 powr (of_int (ilog2 x + 1))"
    using floor_log_eq_powr_iff [of "\<bar>x\<bar>" 2 "ilog2 x"] pos by (simp add: ilog2_def)
  then show "2 powi (ilog2 x) \<le> \<bar>x\<bar>" and "\<bar>x\<bar> < 2 powi (ilog2 x + 1)"
    by (simp_all add: powr_powi powr_powi_Suc)
qed

lemma ilog2_eq:
  assumes "2 powi e \<le> \<bar>x\<bar>" and "\<bar>x\<bar> < 2 powi (e + 1)"
  shows "ilog2 x = e"
proof -
  have pos: "0 < \<bar>x\<bar>" using assms(1) by (smt (verit) zero_less_power_int)
  have "2 powr (of_int e) \<le> \<bar>x\<bar> \<and> \<bar>x\<bar> < 2 powr (of_int (e + 1))"
    using assms by (simp add: powr_powi powr_powi_Suc)
  then show ?thesis
    using floor_log_eq_powr_iff [of "\<bar>x\<bar>" 2 e] pos by (simp add: ilog2_def)
qed

lemma ilog2_mono:
  assumes "x \<noteq> 0" and "\<bar>x\<bar> \<le> \<bar>y\<bar>"
  shows "ilog2 x \<le> ilog2 y"
proof -
  have "0 < \<bar>x\<bar>" using assms(1) by simp
  then have "log 2 \<bar>x\<bar> \<le> log 2 \<bar>y\<bar>" using assms(2) by simp
  then show ?thesis unfolding ilog2_def by (rule floor_mono)
qed

lemma pow2_pos [simp]: "0 < (2::real) powi e"
  by simp

lemma pow2_mono: "a \<le> b \<Longrightarrow> (2::real) powi a \<le> 2 powi b"
  by (rule power_int_increasing) simp_all

lemma pow2_add: "(2::real) powi (a + b) = 2 powi a * 2 powi b"
  by (rule power_int_add) simp

lemma pow2_diff: "(2::real) powi (a - b) = 2 powi a / 2 powi b"
  by (simp add: power_int_diff)

lemma rounded_error: "\<bar>rounded p emin x - x\<bar> \<le> 2 powi (quantum p emin x) / 2"
proof -
  let ?q = "quantum p emin x"
  have "rounded p emin x - x = (of_int (rne (x / 2 powi ?q)) - x / 2 powi ?q) * 2 powi ?q"
    by (simp add: rounded_def left_diff_distrib)
  then have "\<bar>rounded p emin x - x\<bar> = \<bar>of_int (rne (x / 2 powi ?q)) - x / 2 powi ?q\<bar> * 2 powi ?q"
    by (simp add: abs_mult)
  also have "\<dots> \<le> (1 / 2) * 2 powi ?q"
    by (intro mult_right_mono rne_error) simp
  finally show ?thesis by simp
qed

lemma rounded_nonneg: "0 \<le> x \<Longrightarrow> 0 \<le> rounded p emin x"
  unfolding rounded_def by (intro mult_nonneg_nonneg) (simp_all add: rne_ge_int)

lemma rounded_exact:
  assumes "x / 2 powi quantum p emin x \<in> \<int>"
  shows "rounded p emin x = x"
proof -
  obtain n where n: "x / 2 powi quantum p emin x = of_int n"
    using assms by (auto elim: Ints_cases)
  show ?thesis unfolding rounded_def n using n by (simp add: field_simps)
qed

lemma rne_zero [simp]: "rne 0 = 0"
  using rne_of_int [of 0] by simp

lemma rounded_zero [simp]: "rounded p emin 0 = 0"
  by (simp add: rounded_def)

lemma pow2_half: "(2::real) powi (e - int p + 1) / 2 = 2 powi e * 2 powi (- int p)"
  using pow2_add [of "e + (- int p)" 1] pow2_add [of e "- int p"] by simp

lemma quantum_ge: "emin - int p + 1 \<le> quantum p emin x"
  by (simp add: quantum_def)

lemma rounded_rel_error:
  assumes "2 powi emin \<le> \<bar>x\<bar>"
  shows "\<bar>rounded p emin x - x\<bar> \<le> \<bar>x\<bar> * 2 powi (- int p)"
proof -
  have x0: "x \<noteq> 0" using assms by (smt (verit) zero_less_power_int)
  have "emin \<le> ilog2 x"
  proof (rule ccontr)
    assume "\<not> emin \<le> ilog2 x"
    then have "ilog2 x + 1 \<le> emin" by simp
    then have "(2::real) powi (ilog2 x + 1) \<le> 2 powi emin" by (rule pow2_mono)
    with ilog2_bounds(2) [OF x0] assms show False by linarith
  qed
  then have q: "quantum p emin x = ilog2 x - int p + 1" by (simp add: quantum_def)
  have "(2::real) powi (quantum p emin x) / 2 = 2 powi (ilog2 x) * 2 powi (- int p)"
    unfolding q by (rule pow2_half)
  also have "\<dots> \<le> \<bar>x\<bar> * 2 powi (- int p)"
    by (intro mult_right_mono ilog2_bounds(1) [OF x0]) simp
  finally show ?thesis using rounded_error [of p emin x] by linarith
qed

lemma rounded_abs_error:
  assumes "\<bar>x\<bar> < 2 powi emin"
  shows "\<bar>rounded p emin x - x\<bar> \<le> 2 powi (emin - int p)"
proof (cases "x = 0")
  case True
  then show ?thesis by simp
next
  case False
  have "ilog2 x < emin"
  proof (rule ccontr)
    assume "\<not> ilog2 x < emin"
    then have "(2::real) powi emin \<le> 2 powi (ilog2 x)" by (intro pow2_mono) simp
    with ilog2_bounds(1) [OF False] assms show False by linarith
  qed
  then have q: "quantum p emin x = emin - int p + 1" by (simp add: quantum_def)
  have "2 powi (quantum p emin x) / 2 = (2::real) powi (emin - int p)"
    unfolding q using pow2_add [of "emin - int p" 1] by simp
  then show ?thesis using rounded_error [of p emin x] by simp
qed

lemma rounded_gen_error:
  "\<bar>rounded p emin x - x\<bar> \<le> \<bar>x\<bar> * 2 powi (- int p) + 2 powi (emin - int p)"
proof (cases "2 powi emin \<le> \<bar>x\<bar>")
  case True
  from rounded_rel_error [OF this, of p] show ?thesis
    by (smt (verit) zero_less_power_int)
next
  case False
  then have "\<bar>x\<bar> < 2 powi emin" by simp
  from rounded_abs_error [OF this, of p] show ?thesis
    by (smt (verit) mult_nonneg_nonneg abs_ge_zero zero_le_power_int)
qed

lemma pow2_int: "0 \<le> e \<Longrightarrow> (2::real) powi e \<in> \<int>"
  by (simp add: power_int_def)

lemma rounded_on_grid: "on_grid p emin (rounded p emin x)"
proof -
  let ?q = "quantum p emin x" and ?b = "emin - int p + 1"
  have "rounded p emin x / 2 powi ?b = of_int (rne (x / 2 powi ?q)) * 2 powi (?q - ?b)"
    by (simp add: rounded_def power_int_diff)
  moreover have "(2::real) powi (?q - ?b) \<in> \<int>"
    using quantum_ge [of emin p x] by (intro pow2_int) simp
  ultimately show ?thesis unfolding on_grid_def by simp
qed

lemma on_grid_add: "on_grid p emin x \<Longrightarrow> on_grid p emin y \<Longrightarrow> on_grid p emin (x + y)"
  by (simp add: on_grid_def add_divide_distrib)

lemma on_grid_zero [simp]: "on_grid p emin 0"
  by (simp add: on_grid_def)

lemma on_grid_minus: "on_grid p emin x \<Longrightarrow> on_grid p emin (- x)"
  by (simp add: on_grid_def)

lemma rounded_exact_subnormal:
  assumes "on_grid p emin x" and "\<bar>x\<bar> < 2 powi emin"
  shows "rounded p emin x = x"
proof (cases "x = 0")
  case True
  then show ?thesis by simp
next
  case False
  have "ilog2 x < emin"
  proof (rule ccontr)
    assume "\<not> ilog2 x < emin"
    then have "(2::real) powi emin \<le> 2 powi (ilog2 x)" by (intro pow2_mono) simp
    with ilog2_bounds(1) [OF False] assms(2) show False by linarith
  qed
  then have q: "quantum p emin x = emin - int p + 1" by (simp add: quantum_def)
  show ?thesis using assms(1) by (intro rounded_exact) (simp add: q on_grid_def)
qed

lemma rounded_grid_rel_error:
  assumes "on_grid p emin x"
  shows "\<bar>rounded p emin x - x\<bar> \<le> \<bar>x\<bar> * 2 powi (- int p)"
proof (cases "2 powi emin \<le> \<bar>x\<bar>")
  case True
  then show ?thesis by (rule rounded_rel_error)
next
  case False
  then have "rounded p emin x = x" using assms by (intro rounded_exact_subnormal) simp_all
  then show ?thesis by simp
qed

lemma pow2_less_imp: "(2::real) powi a < 2 powi b \<Longrightarrow> a < b"
  using pow2_mono [of b a] by (cases "a < b") simp_all

lemma rounded_le_pow2:
  assumes "0 < x" and "x \<le> 2 powi e" and "max (ilog2 x) emin \<le> e" and "0 < p"
  shows "rounded p emin x \<le> 2 powi e"
proof -
  let ?q = "quantum p emin x"
  have qe: "?q \<le> e" using assms(3,4) unfolding quantum_def by linarith
  have "x / 2 powi ?q \<le> 2 powi (e - ?q)" using assms(2) by (simp add: power_int_diff field_simps)
  also have "(2::real) powi (e - ?q) = of_int (2 ^ nat (e - ?q))"
    using qe by (simp add: power_int_def)
  finally have "rne (x / 2 powi ?q) \<le> 2 ^ nat (e - ?q)" by (rule rne_le_int)
  then have "of_int (rne (x / 2 powi ?q)) \<le> (2::real) powi (e - ?q)"
    using qe by (simp add: power_int_def)
  then have "rounded p emin x \<le> 2 powi (e - ?q) * 2 powi ?q"
    unfolding rounded_def by (intro mult_right_mono) simp_all
  then show ?thesis by (simp add: power_int_diff)
qed

lemma rounded_ge_pow2:
  assumes "2 powi e \<le> x" and "quantum p emin x \<le> e"
  shows "2 powi e \<le> rounded p emin x"
proof -
  let ?q = "quantum p emin x"
  have "2 powi (e - ?q) \<le> x / 2 powi ?q" using assms(1) by (simp add: power_int_diff field_simps)
  moreover have "(2::real) powi (e - ?q) = of_int (2 ^ nat (e - ?q))"
    using assms(2) by (simp add: power_int_def)
  ultimately have "2 ^ nat (e - ?q) \<le> rne (x / 2 powi ?q)" by (intro rne_ge_int) simp
  then have "(2::real) powi (e - ?q) \<le> of_int (rne (x / 2 powi ?q))"
    using assms(2) by (simp add: power_int_def)
  then have "2 powi (e - ?q) * 2 powi ?q \<le> rounded p emin x"
    unfolding rounded_def by (intro mult_right_mono) simp_all
  then show ?thesis by (simp add: power_int_diff)
qed

lemma rounded_mono:
  assumes "0 \<le> x" and "x \<le> y" and "0 < p"
  shows "rounded p emin x \<le> rounded p emin y"
proof (cases "x = 0")
  case True
  then show ?thesis using assms by (simp add: rounded_nonneg)
next
  case False
  then have x: "0 < x" and y: "0 < y" using assms by simp_all
  let ?ex = "max (ilog2 x) emin" and ?ey = "max (ilog2 y) emin"
  have le: "?ex \<le> ?ey" using ilog2_mono [of x y] x y assms(2) by simp
  show ?thesis
  proof (cases "?ex = ?ey")
    case True
    then have q: "quantum p emin x = quantum p emin y" by (simp add: quantum_def)
    have "x / 2 powi quantum p emin y \<le> y / 2 powi quantum p emin y"
      using assms(2) by (simp add: divide_right_mono)
    then have "rne (x / 2 powi quantum p emin y) \<le> rne (y / 2 powi quantum p emin y)"
      by (rule rne_mono)
    then show ?thesis unfolding rounded_def q by (intro mult_right_mono) simp_all
  next
    case False
    from False le have lt: "?ex < ?ey" by (rule order.not_eq_order_implies_strict)
    have "emin \<le> ?ex" by simp
    with lt have "emin < ?ey" by linarith
    then have ey: "?ey = ilog2 y" by (simp add: max_def split: if_splits)
    have "x < 2 powi (ilog2 x + 1)" using ilog2_bounds(2) [of x] x by simp
    also have "\<dots> \<le> 2 powi (?ex + 1)" by (intro pow2_mono) simp
    finally have xb: "x \<le> 2 powi (?ex + 1)" by simp
    have "rounded p emin x \<le> 2 powi (?ex + 1)"
      using x xb assms(3) by (intro rounded_le_pow2) simp_all
    also have "\<dots> \<le> 2 powi ?ey" using lt by (intro pow2_mono) linarith
    also have "\<dots> \<le> rounded p emin y"
    proof (rule rounded_ge_pow2)
      show "2 powi ?ey \<le> y" unfolding ey using ilog2_bounds(1) [of y] y by simp
      show "quantum p emin y \<le> ?ey" using assms(3) by (simp add: quantum_def)
    qed
    finally show ?thesis .
  qed
qed

text \<open>A real that is an integer multiple of its own spacing is left as it is.\<close>

lemma rounded_representable:
  assumes "x = of_int m * 2 powi e" and "\<bar>m\<bar> < 2 ^ p" and "emin - int p + 1 \<le> e"
  shows "rounded p emin x = x"
proof (cases "x = 0")
  case True
  then show ?thesis by simp
next
  case False
  then have m0: "m \<noteq> 0" using assms(1) by auto
  have "\<bar>x\<bar> = of_int \<bar>m\<bar> * 2 powi e" by (simp add: assms(1) abs_mult)
  also have "\<dots> < 2 ^ p * 2 powi e"
    using assms(2) by (intro mult_strict_right_mono) (simp_all flip: of_int_less_iff [where 'a = real])
  also have "\<dots> = 2 powi (int p + e)" by (simp add: pow2_add)
  finally have "\<bar>x\<bar> < 2 powi (int p + e)" .
  moreover have "2 powi (ilog2 x) \<le> \<bar>x\<bar>" using ilog2_bounds(1) [OF False] .
  ultimately have "(2::real) powi (ilog2 x) < 2 powi (int p + e)" by linarith
  then have "ilog2 x < int p + e" by (rule pow2_less_imp)
  then have qe: "quantum p emin x \<le> e" using assms(3) by (simp add: quantum_def)
  have "x / 2 powi quantum p emin x = of_int m * 2 powi (e - quantum p emin x)"
    by (simp add: assms(1) power_int_diff)
  moreover have "(2::real) powi (e - quantum p emin x) \<in> \<int>" using qe by (intro pow2_int) simp
  ultimately have "x / 2 powi quantum p emin x \<in> \<int>" by simp
  then show ?thesis by (rule rounded_exact)
qed

lemma pow2_le_imp: "(2::real) powi a \<le> 2 powi b \<Longrightarrow> a \<le> b"
  using power_int_strict_increasing [of b a "2::real"] by (cases "a \<le> b") simp_all

lemma round_to_nonneg: "0 \<le> x \<Longrightarrow> nonneg (round_to p emin emax x)"
  by (simp add: round_to_def rounded_nonneg)

lemma round_to_cases:
  "round_to p emin emax x = Finite (rounded p emin x) \<and> \<bar>rounded p emin x\<bar> < 2 powi (emax + 1)
   \<or> round_to p emin emax x = PosInf \<and> 0 < x \<and> 2 powi (emax + 1) \<le> \<bar>rounded p emin x\<bar>
   \<or> round_to p emin emax x = NegInf \<and> x < 0 \<and> 2 powi (emax + 1) \<le> \<bar>rounded p emin x\<bar>"
  by (auto simp: round_to_def)

lemma round_to_not_NaN [simp]: "round_to p emin emax x \<noteq> NaN"
  by (simp add: round_to_def)

lemma round_to_mono:
  assumes "0 \<le> x" and "x \<le> y" and "0 < p"
  shows "n_le (round_to p emin emax x) (round_to p emin emax y)"
proof -
  have r: "rounded p emin x \<le> rounded p emin y" using assms by (rule rounded_mono)
  have nx: "0 \<le> rounded p emin x" using assms(1) by (rule rounded_nonneg)
  have y0: "0 \<le> y" using assms by simp
  show ?thesis
  proof (cases "x = 0")
    case True
    then show ?thesis
      using round_to_nonneg [OF y0, of p emin emax]
      by (cases "round_to p emin emax y") (auto simp: round_to_def n_le_def)
  next
    case False
    then have "0 < x" "0 < y" "y \<noteq> 0" using assms by simp_all
    then show ?thesis using r nx by (auto simp: round_to_def n_le_def)
  qed
qed

lemma round_to_exact:
  assumes "x = of_int m * 2 powi e" and "\<bar>m\<bar> < 2 ^ p" and "emin - int p + 1 \<le> e"
    and "\<bar>x\<bar> < 2 powi (emax + 1)"
  shows "round_to p emin emax x = Finite x"
  using rounded_representable [OF assms(1-3)] assms(4) by (simp add: round_to_def)

lemma round_to_bounded:
  assumes "0 \<le> x" and "x \<le> 2 powi e" and "emin \<le> e" and "e \<le> emax" and "0 < p"
  shows "round_to p emin emax x = Finite (rounded p emin x)"
    and "0 \<le> rounded p emin x" and "rounded p emin x \<le> 2 powi e"
proof -
  show nn: "0 \<le> rounded p emin x" using assms(1) by (rule rounded_nonneg)
  show le: "rounded p emin x \<le> 2 powi e"
  proof (cases "x = 0")
    case True
    then show ?thesis by simp
  next
    case False
    then have x: "0 < x" using assms(1) by simp
    have "(2::real) powi (ilog2 x) \<le> 2 powi e" using ilog2_bounds(1) [of x] x assms(2) by simp
    then have "ilog2 x \<le> e" by (rule pow2_le_imp)
    then show ?thesis using x assms by (intro rounded_le_pow2) simp_all
  qed
  have "(2::real) powi e < 2 powi (emax + 1)"
    using assms(4) by (intro power_int_strict_increasing) simp_all
  with nn le show "round_to p emin emax x = Finite (rounded p emin x)"
    by (simp add: round_to_def)
qed

lemma round_to_overflow:
  assumes "2 powi (emax + 1) \<le> x" and "emin \<le> emax" and "0 < p"
  shows "round_to p emin emax x = PosInf"
proof -
  have x: "0 < x" using assms(1) by (smt (verit) zero_less_power_int)
  have "(2::real) powi (emax + 1) < 2 powi (ilog2 x + 1)"
    using ilog2_bounds(2) [of x] x assms(1) by simp
  then have e: "emax + 1 \<le> ilog2 x" using pow2_less_imp [of "emax + 1" "ilog2 x + 1"] by simp
  have "2 powi (ilog2 x) \<le> rounded p emin x"
  proof (rule rounded_ge_pow2)
    show "2 powi ilog2 x \<le> x" using ilog2_bounds(1) [of x] x by simp
    show "quantum p emin x \<le> ilog2 x" using assms(2,3) e unfolding quantum_def by linarith
  qed
  moreover have "(2::real) powi (emax + 1) \<le> 2 powi (ilog2 x)" using e by (rule pow2_mono)
  ultimately have "2 powi (emax + 1) \<le> \<bar>rounded p emin x\<bar>" by linarith
  then show ?thesis using x by (simp add: round_to_def)
qed

lemma n_less_irrefl [simp]: "\<not> n_less a a"
  by (cases a) simp_all

lemma n_less_trans: "n_less a b \<Longrightarrow> n_less b c \<Longrightarrow> n_less a c"
  by (cases a; cases b; cases c) simp_all

lemma n_less_asym: "n_less a b \<Longrightarrow> \<not> n_less b a"
  by (cases a; cases b) simp_all

lemma n_less_linear: "a \<noteq> NaN \<Longrightarrow> b \<noteq> NaN \<Longrightarrow> n_less a b \<or> a = b \<or> n_less b a"
  by (cases a; cases b) auto

lemma dist_ok_not_NaN: "dist_ok d \<Longrightarrow> d \<noteq> NaN"
  by (auto simp: dist_ok_def)

lemma dist_ok_nonneg: "dist_ok d \<Longrightarrow> nonneg d"
  by (auto simp: dist_ok_def)

lemma fl64_nonneg: "0 \<le> x \<Longrightarrow> nonneg (fl64 x)"
  unfolding fl64_def by (rule round_to_nonneg)

lemma fl64_on_grid: "fl64 x = Finite y \<Longrightarrow> on_grid 53 (- 1022) y"
  using round_to_cases [of 53 "- 1022" 1023 x] rounded_on_grid [of 53 "- 1022" x]
  by (cases "x = 0") (auto simp: fl64_def round_to_def)

lemma fl64_dist_ok: "0 \<le> x \<Longrightarrow> dist_ok (fl64 x)"
  using fl64_nonneg [of x] fl64_on_grid [of x]
  by (cases "fl64 x") (auto simp: dist_ok_def)

lemma n_mul_self_nonneg: "a \<noteq> NaN \<Longrightarrow> nonneg (n_mul a a)"
  by (cases a) (simp_all add: fl64_nonneg signed_inf_def)

lemma n_add_nonneg: "nonneg a \<Longrightarrow> nonneg b \<Longrightarrow> nonneg (n_add a b)"
  by (cases a; cases b) (simp_all add: fl64_nonneg)

lemma n_sub_finite_not_NaN: "is_finite a \<Longrightarrow> is_finite b \<Longrightarrow> n_sub a b \<noteq> NaN"
  by (cases a; cases b) (simp_all add: n_sub_def fl64_def)

lemma n_sqrt_dist_ok: "nonneg a \<Longrightarrow> dist_ok (n_sqrt a)"
  by (cases a) (simp_all add: fl64_dist_ok, simp add: dist_ok_def)

lemma distanceTo_dist_ok:
  assumes "finite_vec a" and "finite_vec b"
  shows "dist_ok (distanceTo a b)"
proof -
  have "n_sub (vx a) (vx b) \<noteq> NaN" "n_sub (vy a) (vy b) \<noteq> NaN" "n_sub (vz a) (vz b) \<noteq> NaN"
    using assms by (simp_all add: finite_vec_def n_sub_finite_not_NaN)
  then have "nonneg (distanceToSquared a b)"
    unfolding distanceToSquared_def Let_def
    by (intro n_add_nonneg n_mul_self_nonneg)
  then show ?thesis unfolding distanceTo_def by (rule n_sqrt_dist_ok)
qed

lemma rounded_pos_grid:
  assumes "on_grid p emin x" and "0 < x" and "0 < p"
  shows "0 < rounded p emin x"
proof -
  have "(2::real) powi (- int p) < 1"
    using power_int_strict_increasing [of "- int p" 0 "2::real"] assms(3) by simp
  then have "\<bar>x\<bar> * 2 powi (- int p) < x" using assms(2) by simp
  with rounded_grid_rel_error [OF assms(1)] show ?thesis by linarith
qed

lemma rounded_nonpos: "x \<le> 0 \<Longrightarrow> rounded p emin x \<le> 0"
  unfolding rounded_def
  by (intro mult_nonpos_nonneg) (simp_all add: rne_le_int divide_nonpos_pos)

lemma is_pos_fl64_diff:
  assumes "on_grid 53 (- 1022) x" and "on_grid 53 (- 1022) y"
  shows "is_pos (fl64 (x - y)) \<longleftrightarrow> y < x"
proof (cases "y < x")
  case True
  then have d: "0 < x - y" by simp
  have g: "on_grid 53 (- 1022) (x - y)"
    using on_grid_add [OF assms(1) on_grid_minus [OF assms(2)]] by simp
  have "0 < rounded 53 (- 1022) (x - y)" using g d by (rule rounded_pos_grid) simp
  then show ?thesis using True d by (auto simp: fl64_def round_to_def)
next
  case False
  then have "x - y \<le> 0" by simp
  then have "rounded 53 (- 1022) (x - y) \<le> 0" by (rule rounded_nonpos)
  then show ?thesis using False by (auto simp: fl64_def round_to_def)
qed

lemma compare_consistent:
  assumes "dist_ok a" and "dist_ok b"
  shows "is_pos (n_sub a b) \<longleftrightarrow> n_less b a"
  using assms by (auto simp: dist_ok_def n_sub_def is_pos_fl64_diff)


section \<open>Properties of auto-skinning\<close>

lemma fl32_zero [simp]: "fl32 0 = Finite 0"
  by (simp add: fl32_def round_to_def)

lemma fl64_zero [simp]: "fl64 0 = Finite 0"
  by (simp add: fl64_def round_to_def)


lemma skin_loop_append:
  "skin_loop vs bps n k (is, ws) =
     (is @ concat (map (\<lambda>v. map fst (vertex_influences v bps n k)) vs),
      ws @ concat (map (\<lambda>v. map snd (vertex_influences v bps n k)) vs))"
  by (induction vs arbitrary: "is" ws) (simp_all add: Let_def)

lemma length_vertex_influences [simp]: "length (vertex_influences v bps n k) = k"
  by (simp add: vertex_influences_def)

lemma concat_slice:
  "\<forall>x\<in>set xss. length x = k \<Longrightarrow> v < length xss \<Longrightarrow> take k (drop (v * k) (concat xss)) = xss ! v"
proof (induction xss arbitrary: v)
  case Nil
  then show ?case by simp
next
  case (Cons xs xss)
  show ?case
  proof (cases v)
    case 0
    with Cons.prems show ?thesis by simp
  next
    case (Suc u)
    with Cons.prems have "take k (drop (u * k) (concat xss)) = xss ! u"
      by (intro Cons.IH) auto
    with Suc Cons.prems show ?thesis by simp
  qed
qed

lemma length_concat_const:
  "\<forall>x\<in>set xss. length x = k \<Longrightarrow> length (concat xss) = length xss * k"
  by (induction xss) simp_all

lemma nth_slice:
  "i < k \<Longrightarrow> n + i < length xs \<Longrightarrow> take k (drop n xs) ! i = xs ! (n + i)"
  by (simp add: nth_drop)

lemma length_bonePositions_of [simp]: "length (bonePositions_of sk) = length (bones sk)"
  by (simp add: bonePositions_of_def)

lemma autoSkin_skinWeight:
  "position g = Some vs \<Longrightarrow>
   skinWeight (autoSkin g sk k) =
     Some (Float32BufferAttribute
       (map to_f32 (concat (map (\<lambda>v. map snd
          (vertex_influences v (bonePositions_of sk) (length (bones sk)) k)) vs))) k)"
  by (simp add: autoSkin_def skin_loop_append Let_def new_Float32BufferAttribute_def)

lemma autoSkin_skinIndex:
  "position g = Some vs \<Longrightarrow>
   skinIndex (autoSkin g sk k) =
     Some (Uint16BufferAttribute
       (map of_nat (concat (map (\<lambda>v. map fst
          (vertex_influences v (bonePositions_of sk) (length (bones sk)) k)) vs))) k)"
  by (simp add: autoSkin_def skin_loop_append Let_def new_Uint16BufferAttribute_def)

lemma written_weights_autoSkin:
  "position g = Some vs \<Longrightarrow> v < length vs \<Longrightarrow>
   written_weights (autoSkin g sk k) k v =
     map (to_f32 \<circ> snd) (vertex_influences (vs ! v) (bonePositions_of sk) (length (bones sk)) k)"
  by (simp add: written_weights_def autoSkin_skinWeight concat_slice drop_map take_map
        flip: map_concat)

lemma written_indices_autoSkin:
  "position g = Some vs \<Longrightarrow> v < length vs \<Longrightarrow>
   written_indices (autoSkin g sk k) k v =
     map (of_nat \<circ> fst) (vertex_influences (vs ! v) (bonePositions_of sk) (length (bones sk)) k)"
  by (simp add: written_indices_def autoSkin_skinIndex concat_slice drop_map take_map
        flip: map_concat)

lemma set_insert_sorted [simp]: "set (insert_sorted cmp x ys) = insert x (set ys)"
  by (induction ys) auto

lemma length_insert_sorted [simp]: "length (insert_sorted cmp x ys) = Suc (length ys)"
  by (induction ys) simp_all

lemma array_sort_Cons: "array_sort cmp (x # xs) = insert_sorted cmp x (array_sort cmp xs)"
  by (simp add: array_sort_def)

lemma array_sort_Nil [simp]: "array_sort cmp [] = []"
  by (simp add: array_sort_def)

lemma set_array_sort [simp]: "set (array_sort cmp xs) = set xs"
  by (induction xs) (simp_all add: array_sort_Cons)

lemma length_array_sort [simp]: "length (array_sort cmp xs) = length xs"
  by (induction xs) (simp_all add: array_sort_Cons)

lemma length_closest_of:
  "length bps = n \<Longrightarrow> length (closest_of v bps n k) = min k n"
  by (simp add: closest_of_def distances_of_def)

lemma closest_of_subset:
  "set (closest_of v bps n k) \<subseteq> set (distances_of v bps n)"
  unfolding closest_of_def
  using set_take_subset [of k "array_sort compare_distance (distances_of v bps n)"]
  by simp

lemma distances_of_entry:
  "e \<in> set (distances_of v bps n) \<Longrightarrow>
     index e < n \<and> index e < length bps \<and> distance e = distanceTo v (bps ! index e)"
  by (auto simp: distances_of_def)

lemma closest_of_entry:
  "e \<in> set (closest_of v bps n k) \<Longrightarrow>
     index e < n \<and> index e < length bps \<and> distance e = distanceTo v (bps ! index e)"
  using closest_of_subset distances_of_entry by blast

lemma influence_slot_selected:
  "i < length c \<Longrightarrow>
   influence_slot c i = (index (c ! i), n_div (raw_weight (distance (c ! i))) (totalWeight_of c))"
  by (simp add: influence_slot_def weights_of_def Let_def)

lemma influence_slot_padded: "\<not> i < length c \<Longrightarrow> influence_slot c i = (0, Finite 0)"
  by (simp add: influence_slot_def Let_def)

lemma slots_split:
  "length c \<le> k \<Longrightarrow>
   map (influence_slot c) [0..<k] =
     map (\<lambda>e. (index e, n_div (raw_weight (distance e)) (totalWeight_of c))) c
       @ replicate (k - length c) (0, Finite 0)"
  by (rule nth_equalityI) (auto simp: nth_append influence_slot_def weights_of_def Let_def)

lemma written_weights_nth:
  "position g = Some vs \<Longrightarrow> v < length vs \<Longrightarrow> i < k \<Longrightarrow>
   written_weights (autoSkin g sk k) k v ! i =
     to_f32 (snd (influence_slot
        (closest_of (vs ! v) (bonePositions_of sk) (length (bones sk)) k) i))"
  by (simp add: written_weights_autoSkin vertex_influences_def)

lemma written_indices_nth:
  "position g = Some vs \<Longrightarrow> v < length vs \<Longrightarrow> i < k \<Longrightarrow>
   written_indices (autoSkin g sk k) k v ! i =
     of_nat (fst (influence_slot
        (closest_of (vs ! v) (bonePositions_of sk) (length (bones sk)) k) i))"
  by (simp add: written_indices_autoSkin vertex_influences_def)

lemma vertex_influences_no_bones:
  "vertex_influences v [] 0 k = replicate k (0, Finite 0)"
  by (rule nth_equalityI)
     (simp_all add: vertex_influences_def closest_of_def distances_of_def influence_slot_def
        weights_of_def)

lemma concat_replicate_const:
  "concat (map (\<lambda>v. replicate k c) vs) = replicate (length vs * k) c"
  by (induction vs) (simp_all add: replicate_add)

lemma autoSkin_no_position: "position g = None \<Longrightarrow> autoSkin g sk k = g"
  by (simp add: autoSkin_def)

lemma autoSkin_no_bones:
  assumes "position g = Some vs" and "bones sk = []"
  shows "autoSkin g sk k =
           g\<lparr>skinIndex := Some (Uint16BufferAttribute (replicate (length vs * k) 0) k),
             skinWeight := Some (Float32BufferAttribute (replicate (length vs * k) (Finite 0)) k)\<rparr>"
  using assms
  by (simp add: autoSkin_def skin_loop_append bonePositions_of_def vertex_influences_no_bones
        concat_replicate_const new_Uint16BufferAttribute_def new_Float32BufferAttribute_def)

lemma distanceToSquared_cases: "distanceToSquared a b = NaN \<or> nonneg (distanceToSquared a b)"
proof -
  have sq: "n_mul x x = NaN \<or> nonneg (n_mul x x)" for x
    using n_mul_self_nonneg [of x] by (cases x) simp_all
  have add: "n_add x y = NaN \<or> nonneg (n_add x y)" if "x = NaN \<or> nonneg x" "y = NaN \<or> nonneg y" for x y
    using that n_add_nonneg [of x y] by (cases x; cases y) auto
  show ?thesis unfolding distanceToSquared_def Let_def by (intro add sq)
qed

lemma distanceTo_cases: "distanceTo a b = NaN \<or> dist_ok (distanceTo a b)"
  unfolding distanceTo_def using distanceToSquared_cases [of a b] n_sqrt_dist_ok by auto

lemma closer_trans_dist:
  assumes "dist_ok (distance x)" and "dist_ok (distance y)" and "\<not> n_less (distance y) (distance x)"
    and "closer y z" and "index x < index z"
  shows "closer x z"
proof -
  have "n_less (distance x) (distance y) \<or> distance x = distance y"
    using n_less_linear [of "distance x" "distance y"] assms(1-3) dist_ok_not_NaN by blast
  then show ?thesis using assms(4,5) n_less_trans unfolding closer_def by metis
qed

lemma insert_sorted_closer:
  assumes "sorted_wrt closer ys" and "\<forall>y\<in>set ys. index x < index y"
    and "dist_ok (distance x)" and "\<forall>y\<in>set ys. dist_ok (distance y)"
  shows "sorted_wrt closer (insert_sorted compare_distance x ys)"
  using assms
proof (induction ys)
  case Nil
  then show ?case by simp
next
  case (Cons y ys)
  have cc: "is_pos (compare_distance x y) \<longleftrightarrow> n_less (distance y) (distance x)"
    unfolding compare_distance_def using Cons.prems(3,4) by (intro compare_consistent) simp_all
  show ?case
  proof (cases "n_less (distance y) (distance x)")
    case True
    then have "closer y x" by (simp add: closer_def)
    moreover have "sorted_wrt closer (insert_sorted compare_distance x ys)"
      using Cons.prems by (intro Cons.IH) simp_all
    ultimately show ?thesis using True cc Cons.prems(1) by auto
  next
    case False
    have xy: "closer x y"
    proof -
      have "n_less (distance x) (distance y) \<or> distance x = distance y"
        using n_less_linear [of "distance x" "distance y"] Cons.prems(3,4) False dist_ok_not_NaN
        by auto
      then show ?thesis using Cons.prems(2) by (auto simp: closer_def)
    qed
    have "closer x z" if "z \<in> set ys" for z
    proof -
      have "closer y z" using that Cons.prems(1) by simp
      moreover have "index x < index z" using that Cons.prems(2) by simp
      ultimately show ?thesis using closer_trans_dist [of x y z] Cons.prems(3,4) False by simp
    qed
    with xy False cc Cons.prems(1) show ?thesis by simp
  qed
qed

lemma array_sort_closer:
  "sorted_wrt (\<lambda>e e'. index e < index e') xs \<Longrightarrow> \<forall>x\<in>set xs. dist_ok (distance x) \<Longrightarrow>
   sorted_wrt closer (array_sort compare_distance xs)"
proof (induction xs)
  case Nil
  then show ?case by simp
next
  case (Cons x xs)
  then have "sorted_wrt closer (array_sort compare_distance xs)" by simp
  moreover have "\<forall>y\<in>set (array_sort compare_distance xs). index x < index y"
    using Cons.prems by simp
  ultimately show ?case using Cons.prems(2) by (simp add: array_sort_Cons insert_sorted_closer)
qed

lemma distances_of_index_sorted:
  "sorted_wrt (\<lambda>e e'. index e < index e') (distances_of v bps n)"
  by (simp add: distances_of_def sorted_wrt_map sorted_wrt_filter
        flip: strict_sorted_iff sorted_wrt_iff_nth_less)

lemma distances_of_dist_ok:
  assumes "\<forall>b\<in>set bps. distanceTo v b \<noteq> NaN" and "e \<in> set (distances_of v bps n)"
  shows "dist_ok (distance e)"
proof -
  have "index e < length bps" and d: "distance e = distanceTo v (bps ! index e)"
    using distances_of_entry [OF assms(2)] by simp_all
  then have "distanceTo v (bps ! index e) \<noteq> NaN" using assms(1) by simp
  then show ?thesis using distanceTo_cases [of v "bps ! index e"] d by simp
qed

lemma sorted_distances_closer:
  "\<forall>b\<in>set bps. distanceTo v b \<noteq> NaN \<Longrightarrow>
   sorted_wrt closer (array_sort compare_distance (distances_of v bps n))"
  by (intro array_sort_closer distances_of_index_sorted ballI) (rule distances_of_dist_ok)

lemma closest_of_sorted:
  "\<forall>b\<in>set bps. distanceTo v b \<noteq> NaN \<Longrightarrow> sorted_wrt closer (closest_of v bps n k)"
  unfolding closest_of_def using sorted_distances_closer by (rule sorted_wrt_take)

lemma closest_of_dist_ok:
  "\<forall>b\<in>set bps. distanceTo v b \<noteq> NaN \<Longrightarrow> e \<in> set (closest_of v bps n k) \<Longrightarrow> dist_ok (distance e)"
  using closest_of_subset distances_of_dist_ok by blast

lemma take_drop_sorted_wrt:
  "sorted_wrt R ys \<Longrightarrow> e \<in> set (take k ys) \<Longrightarrow> e' \<in> set (drop k ys) \<Longrightarrow> R e e'"
  using sorted_wrt_append [of R "take k ys" "drop k ys"] by simp

lemma closest_of_beats_rest:
  assumes "\<forall>b\<in>set bps. distanceTo v b \<noteq> NaN"
    and "e \<in> set (closest_of v bps n k)" "j < n" "j < length bps"
    and "j \<notin> index ` set (closest_of v bps n k)"
  shows "closer e \<lparr>index = j, distance = distanceTo v (bps ! j)\<rparr>"
proof -
  let ?ys = "array_sort compare_distance (distances_of v bps n)"
  let ?e' = "\<lparr>index = j, distance = distanceTo v (bps ! j)\<rparr>"
  have "?e' \<in> set (distances_of v bps n)" using assms(3,4) by (simp add: distances_of_def)
  then have "?e' \<in> set ?ys" by simp
  then have "?e' \<in> set (take k ?ys) \<union> set (drop k ?ys)"
    by (simp flip: set_append)
  moreover have "?e' \<notin> set (take k ?ys)"
    using assms(5) by (force simp: closest_of_def)
  ultimately have "?e' \<in> set (drop k ?ys)" by simp
  with sorted_distances_closer [OF assms(1)] assms(2) show ?thesis
    unfolding closest_of_def by (rule take_drop_sorted_wrt)
qed

lemma distances_of_distinct: "distinct (map index (distances_of v bps n))"
  by (simp add: distances_of_def comp_def distinct_map_filter)

lemma distinct_insert_sorted:
  "distinct (map f (insert_sorted cmp x ys)) \<longleftrightarrow> f x \<notin> f ` set ys \<and> distinct (map f ys)"
  by (induction ys) auto

lemma distinct_array_sort: "distinct (map f (array_sort cmp xs)) \<longleftrightarrow> distinct (map f xs)"
  by (induction xs) (simp_all add: array_sort_Cons distinct_insert_sorted)

lemma closest_of_distinct: "distinct (map index (closest_of v bps n k))"
proof -
  let ?ys = "array_sort compare_distance (distances_of v bps n)"
  have "distinct (map index ?ys)"
    using distances_of_distinct [of v bps n] by (simp add: distinct_array_sort)
  then have "distinct (take k (map index ?ys))" by (rule distinct_take)
  then show ?thesis unfolding closest_of_def by (simp add: take_map)
qed

lemma fl64_exact:
  assumes "x = of_int m * 2 powi e" and "\<bar>m\<bar> < 2 ^ 53" and "- 1074 \<le> e" and "\<bar>x\<bar> < 2 powi 1024"
  shows "fl64 x = Finite x"
  unfolding fl64_def using assms by (intro round_to_exact [of x m e]) simp_all

lemma pow2_1024_big: "(2::real) ^ 53 \<le> 2 powi 1024"
proof -
  have "(2::real) powi 53 \<le> 2 powi 1024" by (rule pow2_mono) simp
  then show ?thesis by simp
qed

lemma fl64_of_int:
  assumes "\<bar>m\<bar> < 2 ^ 53"
  shows "fl64 (of_int m) = Finite (of_int m)"
proof (rule fl64_exact [of _ m 0])
  have "\<bar>real_of_int m\<bar> < 2 ^ 53" using assms by (metis of_int_abs of_int_less_numeral_power_cancel_iff)
  then show "\<bar>real_of_int m\<bar> < 2 powi 1024" using pow2_1024_big by linarith
qed (use assms in simp_all)

lemma fl64_numeral [simp]:
  "numeral n < (2::int) ^ 53 \<Longrightarrow> fl64 (numeral n) = Finite (numeral n)"
  using fl64_of_int [of "numeral n"] by simp

lemma fl64_neg_numeral [simp]:
  "numeral n < (2::int) ^ 53 \<Longrightarrow> fl64 (- numeral n) = Finite (- numeral n)"
  using fl64_of_int [of "- numeral n"] by simp

lemma fl64_one [simp]: "fl64 1 = Finite 1"
  using fl64_of_int [of 1] by simp

lemma fl64_neg_one [simp]: "fl64 (- 1) = Finite (- 1)"
  using fl64_of_int [of "- 1"] by simp

lemma sqrt_4 [simp]: "sqrt 4 = 2"
  by (rule real_sqrt_unique) simp_all

lemma example_position:
  "position example_geometry =
     Some [Vector3 (Finite 0) (Finite 0) (Finite 0), Vector3 (Finite 1) (Finite 0) (Finite 0)]"
  by (simp add: example_geometry_def)

lemma example_boneCount: "length (bones example_skeleton) = 3"
  by (simp add: example_skeleton_def)

lemma example_bonePositions:
  "bonePositions_of example_skeleton =
     [Vector3 (Finite 2) (Finite 0) (Finite 0), Vector3 (Finite 1) (Finite 0) (Finite 0),
      Vector3 (Finite (- 1)) (Finite 0) (Finite 0)]"
  by (simp add: bonePositions_of_def example_skeleton_def)

lemma example_distanceTo:
  "distanceTo (Vector3 (Finite 0) (Finite 0) (Finite 0)) (Vector3 (Finite 2) (Finite 0) (Finite 0)) = Finite 2"
  "distanceTo (Vector3 (Finite 0) (Finite 0) (Finite 0)) (Vector3 (Finite 1) (Finite 0) (Finite 0)) = Finite 1"
  "distanceTo (Vector3 (Finite 0) (Finite 0) (Finite 0)) (Vector3 (Finite (- 1)) (Finite 0) (Finite 0)) = Finite 1"
  by (simp_all add: distanceTo_def distanceToSquared_def n_sub_def)

lemma upt_3: "[0..<3] = [0, 1, 2]"
  by (simp add: upt_rec)

lemma example_distances:
  "distances_of (Vector3 (Finite 0) (Finite 0) (Finite 0)) (bonePositions_of example_skeleton) 3 =
     [\<lparr>index = 0, distance = Finite 2\<rparr>, \<lparr>index = 1, distance = Finite 1\<rparr>,
      \<lparr>index = 2, distance = Finite 1\<rparr>]"
  by (simp add: distances_of_def example_bonePositions upt_3 example_distanceTo)

lemma example_sorted:
  "array_sort compare_distance
     [\<lparr>index = 0, distance = Finite 2\<rparr>, \<lparr>index = 1, distance = Finite 1\<rparr>,
      \<lparr>index = 2, distance = Finite 1\<rparr>] =
     [\<lparr>index = 1, distance = Finite 1\<rparr>, \<lparr>index = 2, distance = Finite 1\<rparr>,
      \<lparr>index = 0, distance = Finite 2\<rparr>]"
  by (simp add: array_sort_def compare_distance_def n_sub_def)

lemma example_closest2:
  "closest_of (Vector3 (Finite 0) (Finite 0) (Finite 0)) (bonePositions_of example_skeleton)
     (length (bones example_skeleton)) 2 =
     [\<lparr>index = 1, distance = Finite 1\<rparr>, \<lparr>index = 2, distance = Finite 1\<rparr>]"
  by (simp add: closest_of_def example_boneCount example_distances array_sort_def
        compare_distance_def n_sub_def)

lemma example_closest3:
  "closest_of (Vector3 (Finite 0) (Finite 0) (Finite 0)) (bonePositions_of example_skeleton)
     (length (bones example_skeleton)) 3 =
     [\<lparr>index = 1, distance = Finite 1\<rparr>, \<lparr>index = 2, distance = Finite 1\<rparr>,
      \<lparr>index = 0, distance = Finite 2\<rparr>]"
  by (simp add: closest_of_def example_boneCount example_distances array_sort_def
        compare_distance_def n_sub_def)

lemma example_closest5:
  "closest_of (Vector3 (Finite 0) (Finite 0) (Finite 0)) (bonePositions_of example_skeleton)
     (length (bones example_skeleton)) 5 =
     [\<lparr>index = 1, distance = Finite 1\<rparr>, \<lparr>index = 2, distance = Finite 1\<rparr>,
      \<lparr>index = 0, distance = Finite 2\<rparr>]"
  by (simp add: closest_of_def example_boneCount example_distances array_sort_def
        compare_distance_def n_sub_def)

lemma rne_near: "\<bar>x - of_int m\<bar> < 1 / 2 \<Longrightarrow> rne x = m"
proof -
  assume a: "\<bar>x - of_int m\<bar> < 1 / 2"
  show ?thesis
  proof (cases "of_int m \<le> x")
    case True
    then have "\<lfloor>x\<rfloor> = m" using a by (intro floor_unique) linarith+
    then show ?thesis using a True by (simp add: rne_def Let_def)
  next
    case False
    then have "of_int (m - 1) \<le> x" and "x < of_int (m - 1) + 1" using a by simp_all
    then have f: "\<lfloor>x\<rfloor> = m - 1" by (rule floor_unique)
    have "1 / 2 < x - of_int (m - 1)" using a False by simp
    then show ?thesis using f by (simp add: rne_def Let_def)
  qed
qed

lemma fl64_near:
  assumes "2 powi e \<le> x" and "x < 2 powi (e + 1)" and "- 1022 \<le> e" and "e < 1023"
    and "\<bar>x / 2 powi (e - 52) - of_int m\<bar> < 1 / 2" and "real_of_int m * 2 powi (e - 52) \<le> 2 powi (e + 1)"
  shows "fl64 x = Finite (of_int m * 2 powi (e - 52))"
proof -
  have pos: "0 < x" using assms(1) pow2_pos [of e] by linarith
  then have "ilog2 x = e" using assms(1,2) by (intro ilog2_eq) simp_all
  then have q: "quantum 53 (- 1022) x = e - 52" using assms(3) by (simp add: quantum_def)
  then have r: "rounded 53 (- 1022) x = of_int m * 2 powi (e - 52)"
    using rne_near [OF assms(5)] by (simp add: rounded_def)
  have "(2::real) powi (e + 1) < 2 powi (1023 + 1)"
    using assms(4) pow2_less_imp [of "1023 + 1" "e + 1"] pow2_mono [of "e + 1" "1023"]
      pow2_add [of 1023 1] pow2_pos [of 1023] by simp
  moreover have "0 \<le> rounded 53 (- 1022) x" using pos by (intro rounded_nonneg) simp
  ultimately have "\<bar>rounded 53 (- 1022) x\<bar> < 2 powi (1023 + 1)" using r assms(6) by simp
  then show ?thesis using pos r by (simp add: fl64_def round_to_def)
qed

lemma fl64_overflow: "2 ^ 1024 \<le> x \<Longrightarrow> fl64 x = PosInf"
  unfolding fl64_def by (rule round_to_overflow) (simp_all add: power_int_def power_divide)

lemma literal_eps: "\<exists>c. literal (1 / 1000) = Finite c \<and> 2 powi (- 10) \<le> c \<and> c \<le> 2 powi (- 9)"
proof -
  let ?x = "1 / 1000 :: real"
  have lo: "2 powi (- 10) \<le> ?x" and hi: "?x \<le> 2 powi (- 9)" by (simp_all add: power_int_def power_divide)
  have "ilog2 ?x = - 10" by (rule ilog2_eq) (simp_all add: power_int_def power_divide)
  then have "quantum 53 (- 1022) ?x \<le> - 10" by (simp add: quantum_def)
  with lo have "2 powi (- 10) \<le> rounded 53 (- 1022) ?x" by (rule rounded_ge_pow2)
  moreover have "round_to 53 (- 1022) 1023 ?x = Finite (rounded 53 (- 1022) ?x)"
    and "rounded 53 (- 1022) ?x \<le> 2 powi (- 9)"
    using round_to_bounded [of ?x "- 9" "- 1022" 1023 53] hi by simp_all
  ultimately show ?thesis by (simp add: literal_def fl64_def)
qed

lemma n_add_PosInf_literal [simp]: "n_add PosInf (literal (1 / 1000)) = PosInf"
  using literal_eps by auto

lemma raw_weight_PosInf [simp]: "raw_weight PosInf = Finite 0"
  by (simp add: raw_weight_def)

lemma far_distance:
  "distanceTo (Vector3 (Finite 0) (Finite 0) (Finite 0)) (Vector3 (Finite far_away) (Finite 0) (Finite 0)) = PosInf"
proof -
  have "fl64 (- (2 ^ 600)) = Finite (- (2 ^ 600))"
    by (rule fl64_exact [of _ "- 1" 600]) (simp_all add: power_int_def power_divide)
  moreover have "fl64 (2 ^ 600 * 2 ^ 600) = PosInf"
    by (rule fl64_overflow) (simp flip: power_add)
  ultimately show ?thesis
    by (simp add: far_away_def distanceTo_def distanceToSquared_def n_sub_def)
qed

lemma farther_distance:
  "distanceTo (Vector3 (Finite 0) (Finite 0) (Finite 0)) (Vector3 (Finite farther_away) (Finite 0) (Finite 0)) = PosInf"
proof -
  have "fl64 (- (2 ^ 601)) = Finite (- (2 ^ 601))"
    by (rule fl64_exact [of _ "- 1" 601]) (simp_all add: power_int_def power_divide)
  moreover have "fl64 (2 ^ 601 * 2 ^ 601) = PosInf"
    by (rule fl64_overflow) (simp flip: power_add)
  ultimately show ?thesis
    by (simp add: farther_away_def distanceTo_def distanceToSquared_def n_sub_def)
qed

lemma off_axis_distance:
  "distanceTo (Vector3 (Finite 0) (Finite 0) (Finite 0)) (Vector3 (Finite 1024) (Finite hair) (Finite 0)) = Finite 1024"
proof -
  have dy: "fl64 (- (1 / 2 ^ 20)) = Finite (- (1 / 2 ^ 20))"
    by (rule fl64_exact [of _ "- 1" "- 20"]) (simp_all add: power_int_def power_divide)
  have dy2: "fl64 (1 / 2 ^ 40) = Finite (1 / 2 ^ 40)"
    by (rule fl64_exact [of _ 1 "- 40"]) (simp_all add: power_int_def power_divide)
  have "fl64 (2 ^ 20 + 1 / 2 ^ 40) = Finite (of_int (2 ^ 52) * 2 powi (20 - 52))"
    by (rule fl64_near) (simp_all add: power_int_def power_divide)
  moreover have "of_int (2 ^ 52) * 2 powi (20 - 52) = (2 ^ 20 :: real)"
    by (simp add: power_int_def power_divide)
  ultimately have s: "fl64 (2 ^ 20 + 1 / 2 ^ 40) = Finite (2 ^ 20)" by (simp only:)
  have sq: "sqrt (2 ^ 20) = 2 ^ 10" by (rule real_sqrt_unique) simp_all
  have m: "(- (1 / 2 ^ 20)) * (- (1 / 2 ^ 20)) = (1 / 2 ^ 40 :: real)" by simp
  have k: "(1024 :: real) = 2 ^ 10" "(- 1024) * (- 1024) = (2 ^ 20 :: real)" by simp_all
  have f20: "fl64 (2 ^ 20) = Finite (2 ^ 20)" by simp
  have f10: "fl64 (2 ^ 10) = Finite (2 ^ 10)" by simp
  have "n_sub (Finite 0) (Finite 1024) = Finite (- 1024)" by (simp add: n_sub_def)
  moreover have "n_sub (Finite 0) (Finite (1 / 2 ^ 20)) = Finite (- (1 / 2 ^ 20))"
    using dy by (simp add: n_sub_def)
  moreover have "n_sub (Finite 0) (Finite 0) = Finite 0" by (simp add: n_sub_def)
  moreover have "n_mul (Finite (- 1024)) (Finite (- 1024)) = Finite (2 ^ 20)" by simp
  moreover have "n_mul (Finite (- (1 / 2 ^ 20))) (Finite (- (1 / 2 ^ 20))) = Finite (1 / 2 ^ 40)"
    unfolding n_mul.simps m by (rule dy2)
  moreover have "n_mul (Finite 0) (Finite 0) = Finite 0" by simp
  moreover have "n_add (Finite (2 ^ 20)) (Finite (1 / 2 ^ 40)) = Finite (2 ^ 20)"
    unfolding n_add.simps by (rule s)
  moreover have "n_add (Finite (2 ^ 20)) (Finite 0) = Finite (2 ^ 20)" by simp
  moreover have "n_sqrt (Finite (2 ^ 20)) = Finite 1024"
    unfolding n_sqrt.simps sq using f10 by simp
  ultimately show ?thesis
    by (simp only: hair_def distanceTo_def distanceToSquared_def Let_def Vector3.sel)
qed

lemma on_axis_distance:
  "distanceTo (Vector3 (Finite 0) (Finite 0) (Finite 0)) (Vector3 (Finite 1024) (Finite 0) (Finite 0)) = Finite 1024"
proof -
  have "sqrt 1048576 = 1024" by (rule real_sqrt_unique) simp_all
  then show ?thesis by (simp add: distanceTo_def distanceToSquared_def n_sub_def)
qed

lemma totalWeight_closest:
  "totalWeight_of (closest_of v bps n k) =
     foldl n_add (Finite 0) (map (\<lambda>e. raw_weight (distanceTo v (bps ! index e))) (closest_of v bps n k))"
proof -
  have "map (\<lambda>e. raw_weight (distance e)) (closest_of v bps n k) =
        map (\<lambda>e. raw_weight (distanceTo v (bps ! index e))) (closest_of v bps n k)"
    by (rule map_cong) (simp_all add: closest_of_entry)
  then show ?thesis unfolding totalWeight_of_def weights_of_def by (rule arg_cong)
qed

lemma written_weight_selected:
  assumes "position g = Some vs" and "v < length vs" and "i < min k (length (bones sk))"
  shows "written_weights (autoSkin g sk k) k v ! i =
           to_f32 (n_div
             (raw_weight (distanceTo (vs ! v) (bonePositions_of sk !
                index (closest_of (vs ! v) (bonePositions_of sk) (length (bones sk)) k ! i))))
             (foldl n_add (Finite 0)
                (map (\<lambda>e. raw_weight (distanceTo (vs ! v) (bonePositions_of sk ! index e)))
                   (closest_of (vs ! v) (bonePositions_of sk) (length (bones sk)) k))))"
proof -
  let ?c = "closest_of (vs ! v) (bonePositions_of sk) (length (bones sk)) k"
  have len: "length ?c = min k (length (bones sk))" by (simp add: length_closest_of)
  then have i: "i < length ?c" "i < k" using assms(3) by simp_all
  then have "?c ! i \<in> set ?c" by simp
  then have "distance (?c ! i) = distanceTo (vs ! v) (bonePositions_of sk ! index (?c ! i))"
    by (simp add: closest_of_entry)
  then show ?thesis
    using assms(1,2) i
    by (simp add: written_weights_nth influence_slot_selected totalWeight_closest)
qed




subsection \<open>The claims about auto-skinning\<close>

text \<open>
  Claim C2, as the code has it.  The function has no error result.  Without a position
  attribute it returns the geometry unchanged.  With a position attribute and a skeleton
  without bones it is not a no-op: it sets both skinning attributes, each to
  \<open>vertexCount * k\<close> zeros with item size \<open>k\<close>.
\<close>

theorem autoSkin_failure_modes:
  "(position g = None \<longrightarrow> autoSkin g sk k = g) \<and>
   (\<forall>vs. position g = Some vs \<and> bones sk = [] \<longrightarrow>
      autoSkin g sk k =
        g\<lparr>skinIndex := Some (Uint16BufferAttribute (replicate (length vs * k) 0) k),
          skinWeight := Some (Float32BufferAttribute (replicate (length vs * k) (Finite 0)) k)\<rparr>)"
  using autoSkin_no_position autoSkin_no_bones by blast

theorem autoSkin_failure_modes_witness:
  "position (example_geometry\<lparr>position := None\<rparr>) = None \<and>
   autoSkin (example_geometry\<lparr>position := None\<rparr>) example_skeleton 4 =
     example_geometry\<lparr>position := None\<rparr> \<and>
   position example_geometry =
     Some [Vector3 (Finite 0) (Finite 0) (Finite 0), Vector3 (Finite 1) (Finite 0) (Finite 0)] \<and>
   bones \<lparr>bones = []\<rparr> = [] \<and>
   autoSkin example_geometry \<lparr>bones = []\<rparr> 4 =
     example_geometry
       \<lparr>skinIndex := Some (Uint16BufferAttribute [0, 0, 0, 0, 0, 0, 0, 0] 4),
        skinWeight := Some (Float32BufferAttribute
          [Finite 0, Finite 0, Finite 0, Finite 0, Finite 0, Finite 0, Finite 0, Finite 0] 4)\<rparr>"
proof -
  let ?vs = "[Vector3 (Finite 0) (Finite 0) (Finite 0), Vector3 (Finite 1) (Finite 0) (Finite 0)]"
  have "autoSkin (example_geometry\<lparr>position := None\<rparr>) example_skeleton 4 =
          example_geometry\<lparr>position := None\<rparr>"
    using autoSkin_failure_modes [of "example_geometry\<lparr>position := None\<rparr>" example_skeleton 4]
    by simp
  moreover have "autoSkin example_geometry \<lparr>bones = []\<rparr> 4 =
     example_geometry
       \<lparr>skinIndex := Some (Uint16BufferAttribute (replicate (length ?vs * 4) 0) 4),
        skinWeight := Some (Float32BufferAttribute (replicate (length ?vs * 4) (Finite 0)) 4)\<rparr>"
    using autoSkin_failure_modes [of example_geometry "\<lparr>bones = []\<rparr>" 4] example_position
    by simp
  ultimately show ?thesis using example_position by (simp add: numeral_eq_Suc)
qed

theorem autoSkin_empty_skeleton_counterexample:
  "position example_geometry \<noteq> None \<and> bones \<lparr>bones = []\<rparr> = [] \<and>
   autoSkin example_geometry \<lparr>bones = []\<rparr> 4 \<noteq> example_geometry"
proof -
  have "skinWeight (autoSkin example_geometry \<lparr>bones = []\<rparr> 4) \<noteq> skinWeight example_geometry"
    by (simp add: autoSkin_skinWeight [OF example_position]) (simp add: example_geometry_def)
  then have "autoSkin example_geometry \<lparr>bones = []\<rparr> 4 \<noteq> example_geometry" by auto
  then show ?thesis by (simp add: example_position)
qed




lemma set_bonePositions_of: "set (bonePositions_of sk) = getWorldPosition ` set (bones sk)"
  by (simp add: bonePositions_of_def)

lemma far_closest:
  "closest_of (Vector3 (Finite 0) (Finite 0) (Finite 0)) (bonePositions_of far_skeleton)
     (length (bones far_skeleton)) 2 = [\<lparr>index = 0, distance = PosInf\<rparr>]"
  by (simp add: closest_of_def distances_of_def bonePositions_of_def far_skeleton_def
        far_distance array_sort_def)

lemma near_closest:
  "closest_of (Vector3 (Finite 0) (Finite 0) (Finite 0)) (bonePositions_of near_skeleton)
     (length (bones near_skeleton)) 1 = [\<lparr>index = 0, distance = Finite 1024\<rparr>]"
proof -
  have "[0..<2] = [0, Suc 0]" by (simp add: upt_rec)
  then show ?thesis
    by (simp add: closest_of_def distances_of_def bonePositions_of_def near_skeleton_def
        off_axis_distance on_axis_distance array_sort_def compare_distance_def n_sub_def)
qed

text \<open>
  Claim C6, in the arithmetic of the code.  Where no computed distance from the vertex to a
  bone is NaN (as when every coordinate is finite), the selection for the vertex holds
  \<open>min k n\<close> distinct bones with their computed distances; every selected bone has a smaller
  computed distance than every bone left out, or the same one and a smaller index; the
  selection is listed smallest computed distance first, smaller index first at equal computed
  distance; and the indices written are those of the selection, then zeros.
\<close>

theorem autoSkin_selects_k_nearest:
  assumes "position g = Some vs" and "v < length vs"
    and "\<forall>b\<in>set (bones sk). distanceTo (vs ! v) (getWorldPosition b) \<noteq> NaN"
  shows "let bps = bonePositions_of sk; n = length (bones sk);
             c = closest_of (vs ! v) bps n k
         in length c = min k n \<and> distinct (map index c) \<and>
            (\<forall>e\<in>set c. index e < n \<and> distance e = distanceTo (vs ! v) (bps ! index e)) \<and>
            (\<forall>e\<in>set c. \<forall>j<n. j \<notin> index ` set c \<longrightarrow>
                n_less (distance e) (distanceTo (vs ! v) (bps ! j)) \<or>
                (distance e = distanceTo (vs ! v) (bps ! j) \<and> index e < j)) \<and>
            sorted_wrt closer c \<and>
            written_indices (autoSkin g sk k) k v =
              map (\<lambda>e. of_nat (index e)) c @ replicate (k - length c) 0"
proof -
  let ?bps = "bonePositions_of sk"
  let ?n = "length (bones sk)"
  let ?c = "closest_of (vs ! v) ?bps ?n k"
  have ok: "\<forall>b\<in>set ?bps. distanceTo (vs ! v) b \<noteq> NaN"
    using assms(3) by (simp add: set_bonePositions_of)
  have len: "length ?c = min k ?n" by (simp add: length_closest_of)
  have ent: "\<forall>e\<in>set ?c. index e < ?n \<and> distance e = distanceTo (vs ! v) (?bps ! index e)"
    using closest_of_entry by blast
  have rest: "\<forall>e\<in>set ?c. \<forall>j<?n. j \<notin> index ` set ?c \<longrightarrow>
                n_less (distance e) (distanceTo (vs ! v) (?bps ! j)) \<or>
                (distance e = distanceTo (vs ! v) (?bps ! j) \<and> index e < j)"
  proof (intro ballI allI impI)
    fix e j assume "e \<in> set ?c" "j < ?n" "j \<notin> index ` set ?c"
    then have "closer e \<lparr>index = j, distance = distanceTo (vs ! v) (?bps ! j)\<rparr>"
      using ok by (intro closest_of_beats_rest) simp_all
    then show "n_less (distance e) (distanceTo (vs ! v) (?bps ! j)) \<or>
                (distance e = distanceTo (vs ! v) (?bps ! j) \<and> index e < j)"
      by (simp add: closer_def)
  qed
  have "length ?c \<le> k" using len by simp
  then have wr: "written_indices (autoSkin g sk k) k v =
              map (\<lambda>e. of_nat (index e)) ?c @ replicate (k - length ?c) 0"
    using assms(1,2) by (simp add: written_indices_autoSkin vertex_influences_def slots_split comp_def)
  show ?thesis
    unfolding Let_def using len closest_of_distinct ent rest closest_of_sorted [OF ok] wr by blast
qed

theorem autoSkin_selects_k_nearest_witness:
  "map (\<lambda>b. distanceTo (Vector3 (Finite 0) (Finite 0) (Finite 0)) (getWorldPosition b))
      (bones example_skeleton) = [Finite 2, Finite 1, Finite 1] \<and>
   closest_of (Vector3 (Finite 0) (Finite 0) (Finite 0)) (bonePositions_of example_skeleton)
       (length (bones example_skeleton)) 2 =
     [\<lparr>index = 1, distance = Finite 1\<rparr>, \<lparr>index = 2, distance = Finite 1\<rparr>] \<and>
   (0::nat) \<notin> index ` set [\<lparr>index = 1, distance = Finite 1\<rparr>, \<lparr>index = 2, distance = Finite 1\<rparr>] \<and>
   n_less (Finite 1) (distanceTo (Vector3 (Finite 0) (Finite 0) (Finite 0))
      (Vector3 (Finite 2) (Finite 0) (Finite 0))) \<and>
   written_indices (autoSkin example_geometry example_skeleton 2) 2 0 = [1, 2]"
proof -
  have v: "(0::nat) < length [Vector3 (Finite 0) (Finite 0) (Finite 0), Vector3 (Finite 1) (Finite 0) (Finite 0)]"
    by simp
  have ok: "\<forall>b\<in>set (bones example_skeleton).
      distanceTo ([Vector3 (Finite 0) (Finite 0) (Finite 0), Vector3 (Finite 1) (Finite 0) (Finite 0)] ! 0)
        (getWorldPosition b) \<noteq> NaN"
    by (simp add: example_skeleton_def example_distanceTo)
  note th = autoSkin_selects_k_nearest [OF example_position v ok, of 2,
      unfolded Let_def nth_Cons_0 example_closest2]
  from th have "written_indices (autoSkin example_geometry example_skeleton 2) 2 0 = [1, 2]"
    by simp
  moreover have "map (\<lambda>b. distanceTo (Vector3 (Finite 0) (Finite 0) (Finite 0)) (getWorldPosition b))
      (bones example_skeleton) = [Finite 2, Finite 1, Finite 1]"
    by (simp add: example_distanceTo example_skeleton_def)
  ultimately show ?thesis
    using example_closest2 by (simp add: example_distanceTo)
qed

theorem autoSkin_selects_k_nearest_counterexample:
  "written_indices (autoSkin example_geometry near_skeleton 1) 1 0 = [0] \<and>
   euclidean (Vector3 (Finite 0) (Finite 0) (Finite 0)) (getWorldPosition (bones near_skeleton ! 1))
     < euclidean (Vector3 (Finite 0) (Finite 0) (Finite 0)) (getWorldPosition (bones near_skeleton ! 0))"
proof -
  have v: "(0::nat) < length [Vector3 (Finite 0) (Finite 0) (Finite 0), Vector3 (Finite 1) (Finite 0) (Finite 0)]"
    by simp
  have "written_indices (autoSkin example_geometry near_skeleton 1) 1 0 = [0]"
    using written_indices_autoSkin [OF example_position v, of near_skeleton 1]
    by (simp add: vertex_influences_def near_closest [simplified] influence_slot_def weights_of_def)
  moreover have "euclidean (Vector3 (Finite 0) (Finite 0) (Finite 0)) (Vector3 (Finite 1024) (Finite 0) (Finite 0))
      < euclidean (Vector3 (Finite 0) (Finite 0) (Finite 0)) (Vector3 (Finite 1024) (Finite hair) (Finite 0))"
    unfolding euclidean_def by (rule real_sqrt_less_mono) (simp add: hair_def)
  ultimately show ?thesis by (simp add: near_skeleton_def)
qed

text \<open>
  Claim C7, in the arithmetic of the code.  With at least one bone and fewer bones than \<open>k\<close>,
  every slot from the bone count on holds bone index 0 and weight 0, and every slot below it
  holds a selected bone and the single-precision rounding of its weight divided by the total
  weight, both computed in double arithmetic.
\<close>

theorem autoSkin_pads_missing_bones:
  assumes "position g = Some vs" and "v < length vs"
    and "bones sk \<noteq> []" and "length (bones sk) < k"
  shows "let bps = bonePositions_of sk; n = length (bones sk);
             c = closest_of (vs ! v) bps n k
         in (\<forall>i. n \<le> i \<and> i < k \<longrightarrow>
               written_indices (autoSkin g sk k) k v ! i = 0 \<and>
               written_weights (autoSkin g sk k) k v ! i = Finite 0) \<and>
            (\<forall>i<n. written_indices (autoSkin g sk k) k v ! i = of_nat (index (c ! i)) \<and>
               written_weights (autoSkin g sk k) k v ! i =
                 to_f32 (n_div (raw_weight (distanceTo (vs ! v) (bps ! index (c ! i))))
                   (foldl n_add (Finite 0)
                      (map (\<lambda>e. raw_weight (distanceTo (vs ! v) (bps ! index e))) c)))) \<and>
            length c = n"
proof -
  let ?bps = "bonePositions_of sk"
  let ?n = "length (bones sk)"
  let ?c = "closest_of (vs ! v) ?bps ?n k"
  have len: "length ?c = ?n" using assms(4) by (simp add: length_closest_of)
  have pad: "written_indices (autoSkin g sk k) k v ! i = 0 \<and>
             written_weights (autoSkin g sk k) k v ! i = Finite 0" if "?n \<le> i" "i < k" for i
    using that assms(1,2) len
    by (simp add: written_indices_nth written_weights_nth influence_slot_padded)
  have sel: "written_indices (autoSkin g sk k) k v ! i = of_nat (index (?c ! i)) \<and>
             written_weights (autoSkin g sk k) k v ! i =
                 to_f32 (n_div (raw_weight (distanceTo (vs ! v) (?bps ! index (?c ! i))))
                   (foldl n_add (Finite 0)
                      (map (\<lambda>e. raw_weight (distanceTo (vs ! v) (?bps ! index e))) ?c)))"
    if "i < ?n" for i
  proof -
    have i: "i < min k ?n" "i < k" "i < length ?c" using that assms(4) len by simp_all
    have "written_indices (autoSkin g sk k) k v ! i = of_nat (index (?c ! i))"
      using assms(1,2) i by (simp add: written_indices_nth influence_slot_selected)
    then show ?thesis
      using written_weight_selected [OF assms(1,2) i(1)] by simp
  qed
  show ?thesis unfolding Let_def using pad sel len by blast
qed

theorem autoSkin_pads_missing_bones_witness:
  "bones example_skeleton \<noteq> [] \<and> length (bones example_skeleton) < 5 \<and>
   written_indices (autoSkin example_geometry example_skeleton 5) 5 0 ! 3 = 0 \<and>
   written_weights (autoSkin example_geometry example_skeleton 5) 5 0 ! 3 = Finite 0 \<and>
   written_indices (autoSkin example_geometry example_skeleton 5) 5 0 ! 4 = 0 \<and>
   written_weights (autoSkin example_geometry example_skeleton 5) 5 0 ! 4 = Finite 0 \<and>
   written_indices (autoSkin example_geometry example_skeleton 5) 5 0 ! 0 = 1 \<and>
   written_weights (autoSkin example_geometry example_skeleton 5) 5 0 ! 0 =
     to_f32 (n_div (raw_weight (Finite 1))
       (n_add (n_add (n_add (Finite 0) (raw_weight (Finite 1))) (raw_weight (Finite 1)))
          (raw_weight (Finite 2))))"
proof -
  have v: "(0::nat) < length [Vector3 (Finite 0) (Finite 0) (Finite 0), Vector3 (Finite 1) (Finite 0) (Finite 0)]"
    by simp
  have b: "bones example_skeleton \<noteq> []" by (simp add: example_skeleton_def)
  have n: "length (bones example_skeleton) < 5" by (simp add: example_boneCount)
  note th = autoSkin_pads_missing_bones [OF example_position v b n,
      unfolded Let_def nth_Cons_0 example_closest5, unfolded example_boneCount]
  note pad = th [THEN conjunct1, rule_format]
  note sel = th [THEN conjunct2, THEN conjunct1, rule_format]
  have "written_indices (autoSkin example_geometry example_skeleton 5) 5 0 ! 3 = 0 \<and>
        written_weights (autoSkin example_geometry example_skeleton 5) 5 0 ! 3 = Finite 0"
    by (rule pad) simp
  moreover have "written_indices (autoSkin example_geometry example_skeleton 5) 5 0 ! 4 = 0 \<and>
        written_weights (autoSkin example_geometry example_skeleton 5) 5 0 ! 4 = Finite 0"
    by (rule pad) simp
  moreover have "written_indices (autoSkin example_geometry example_skeleton 5) 5 0 ! 0 = 1 \<and>
        written_weights (autoSkin example_geometry example_skeleton 5) 5 0 ! 0 =
          to_f32 (n_div (raw_weight (Finite 1))
            (n_add (n_add (n_add (Finite 0) (raw_weight (Finite 1))) (raw_weight (Finite 1)))
               (raw_weight (Finite 2))))"
    using sel [of 0] by (simp add: example_bonePositions example_distanceTo)
  ultimately show ?thesis using b n by simp
qed

theorem autoSkin_pads_missing_bones_counterexample:
  "bones far_skeleton \<noteq> [] \<and> length (bones far_skeleton) < 2 \<and>
   written_weights (autoSkin example_geometry far_skeleton 2) 2 0 = [NaN, Finite 0]"
proof -
  have v: "(0::nat) < length [Vector3 (Finite 0) (Finite 0) (Finite 0), Vector3 (Finite 1) (Finite 0) (Finite 0)]"
    by simp
  have "[0..<2] = [0, Suc 0]" by (simp add: upt_rec)
  then have "written_weights (autoSkin example_geometry far_skeleton 2) 2 0 = [NaN, Finite 0]"
    using written_weights_autoSkin [OF example_position v, of far_skeleton 2]
    by (simp add: vertex_influences_def far_closest [simplified] influence_slot_def weights_of_def
          totalWeight_of_def signed_inf_def)
  then show ?thesis by (simp add: far_skeleton_def)
qed

text \<open>
  Claim C8.  Both skinning attributes have item size \<open>k\<close> and \<open>vertexCount * k\<close> entries,
  and entry \<open>v * k + i\<close> is slot \<open>i\<close> of vertex \<open>v\<close>, the weight as stored in single precision.
\<close>

theorem autoSkin_output_layout:
  assumes "position g = Some vs"
  shows "(\<exists>is ws. skinIndex (autoSkin g sk k) = Some (Uint16BufferAttribute is k) \<and>
            skinWeight (autoSkin g sk k) = Some (Float32BufferAttribute ws k) \<and>
            length is = length vs * k \<and> length ws = length vs * k \<and>
            (\<forall>v<length vs. \<forall>i<k.
               is ! (v * k + i) =
                 of_nat (fst (influence_slot
                   (closest_of (vs ! v) (bonePositions_of sk) (length (bones sk)) k) i)) \<and>
               ws ! (v * k + i) =
                 to_f32 (snd (influence_slot
                   (closest_of (vs ! v) (bonePositions_of sk) (length (bones sk)) k) i))))"
proof -
  let ?f = "\<lambda>v. vertex_influences v (bonePositions_of sk) (length (bones sk)) k"
  let ?is = "map of_nat (concat (map (\<lambda>v. map fst (?f v)) vs)) :: 16 word list"
  let ?ws = "map to_f32 (concat (map (\<lambda>v. map snd (?f v)) vs))"
  have li: "length ?is = length vs * k"
    using length_concat_const [of "map (\<lambda>v. map fst (?f v)) vs" k] by simp
  have lw: "length ?ws = length vs * k"
    using length_concat_const [of "map (\<lambda>v. map snd (?f v)) vs" k] by simp
  have nth: "?is ! (v * k + i) =
                 of_nat (fst (influence_slot
                   (closest_of (vs ! v) (bonePositions_of sk) (length (bones sk)) k) i)) \<and>
             ?ws ! (v * k + i) =
                 to_f32 (snd (influence_slot
                   (closest_of (vs ! v) (bonePositions_of sk) (length (bones sk)) k) i))"
    if "v < length vs" "i < k" for v i
  proof -
    have "v * k + i < length vs * k"
    proof -
      have "v * k + i < Suc v * k" using that(2) by simp
      also have "\<dots> \<le> length vs * k" using that(1) by (intro mult_le_mono1) simp
      finally show ?thesis .
    qed
    then have "?is ! (v * k + i) = take k (drop (v * k) ?is) ! i"
      and "?ws ! (v * k + i) = take k (drop (v * k) ?ws) ! i"
      using that(2) li lw by (simp_all only: nth_slice)
    moreover have "take k (drop (v * k) ?is) = written_indices (autoSkin g sk k) k v"
      using assms by (simp add: written_indices_def autoSkin_skinIndex)
    moreover have "take k (drop (v * k) ?ws) = written_weights (autoSkin g sk k) k v"
      using assms by (simp add: written_weights_def autoSkin_skinWeight)
    ultimately show ?thesis
      using written_indices_nth [OF assms that] written_weights_nth [OF assms that] by simp
  qed
  show ?thesis
    using autoSkin_skinIndex [OF assms, of sk k] autoSkin_skinWeight [OF assms, of sk k] li lw nth
    by blast
qed

theorem autoSkin_output_layout_witness:
  "position example_geometry =
     Some [Vector3 (Finite 0) (Finite 0) (Finite 0), Vector3 (Finite 1) (Finite 0) (Finite 0)] \<and>
   (\<exists>is ws. skinIndex (autoSkin example_geometry example_skeleton 2) =
               Some (Uint16BufferAttribute is 2) \<and>
            skinWeight (autoSkin example_geometry example_skeleton 2) =
               Some (Float32BufferAttribute ws 2) \<and>
            length is = 4 \<and> length ws = 4 \<and> is ! 1 = 2 \<and>
            ws ! 1 = to_f32 (n_div (raw_weight (Finite 1))
                       (n_add (n_add (Finite 0) (raw_weight (Finite 1))) (raw_weight (Finite 1)))))"
proof -
  let ?vs = "[Vector3 (Finite 0) (Finite 0) (Finite 0), Vector3 (Finite 1) (Finite 0) (Finite 0)]"
  obtain "is" ws where
    a: "skinIndex (autoSkin example_geometry example_skeleton 2) = Some (Uint16BufferAttribute is 2)"
       "skinWeight (autoSkin example_geometry example_skeleton 2) = Some (Float32BufferAttribute ws 2)"
       "length is = length ?vs * 2"
       "length ws = length ?vs * 2"
    and s: "\<forall>v<length ?vs. \<forall>i<2.
               is ! (v * 2 + i) =
                 of_nat (fst (influence_slot
                   (closest_of (?vs ! v)
                      (bonePositions_of example_skeleton) (length (bones example_skeleton)) 2) i)) \<and>
               ws ! (v * 2 + i) =
                 to_f32 (snd (influence_slot
                   (closest_of (?vs ! v)
                      (bonePositions_of example_skeleton) (length (bones example_skeleton)) 2) i))"
    using autoSkin_output_layout [OF example_position, of example_skeleton 2] by blast
  have "(0::nat) < length ?vs" "(1::nat) < 2" by simp_all
  with s have "is ! (0 * 2 + 1) =
                 of_nat (fst (influence_slot
                   (closest_of (?vs ! 0)
                      (bonePositions_of example_skeleton) (length (bones example_skeleton)) 2) 1)) \<and>
               ws ! (0 * 2 + 1) =
                 to_f32 (snd (influence_slot
                   (closest_of (?vs ! 0)
                      (bonePositions_of example_skeleton) (length (bones example_skeleton)) 2) 1))"
    by blast
  then have "is ! 1 = 2 \<and> ws ! 1 = to_f32 (n_div (raw_weight (Finite 1))
                       (n_add (n_add (Finite 0) (raw_weight (Finite 1))) (raw_weight (Finite 1))))"
    unfolding nth_Cons_0 example_closest2
    by (simp add: influence_slot_def weights_of_def totalWeight_of_def)
  with a show ?thesis using example_position by simp
qed

lemma n_le_Finite [simp]: "n_le (Finite a) (Finite b) \<longleftrightarrow> a \<le> b"
  by (auto simp: n_le_def)

lemma n_le_PosInf [simp]: "n_le a PosInf \<longleftrightarrow> a \<noteq> NaN"
  by (cases a) (simp_all add: n_le_def)

lemma fl64_mono: "0 \<le> x \<Longrightarrow> x \<le> y \<Longrightarrow> n_le (fl64 x) (fl64 y)"
  unfolding fl64_def by (rule round_to_mono) simp_all

lemma fl32_mono: "0 \<le> x \<Longrightarrow> x \<le> y \<Longrightarrow> n_le (fl32 x) (fl32 y)"
  unfolding fl32_def by (rule round_to_mono) simp_all

lemma fl32_not_NaN [simp]: "fl32 x \<noteq> NaN"
  by (simp add: fl32_def)

lemma fl64_not_NaN [simp]: "fl64 x \<noteq> NaN"
  by (simp add: fl64_def)

lemma to_f32_mono: "nonneg x \<Longrightarrow> n_le x y \<Longrightarrow> n_le (to_f32 x) (to_f32 y)"
  by (cases x; cases y) (simp_all add: fl32_mono, simp_all add: n_le_def)

lemma fl64_bounded:
  assumes "0 \<le> x" and "x \<le> 2 powi e" and "- 1022 \<le> e" and "e \<le> 1023"
  shows "fl64 x = Finite (rounded 53 (- 1022) x)"
    and "0 \<le> rounded 53 (- 1022) x" and "rounded 53 (- 1022) x \<le> 2 powi e"
  using round_to_bounded [of x e "- 1022" 1023 53] assms by (simp_all add: fl64_def)

lemma fl32_bounded:
  assumes "0 \<le> x" and "x \<le> 2 powi e" and "- 126 \<le> e" and "e \<le> 127"
  shows "fl32 x = Finite (rounded 24 (- 126) x)"
    and "0 \<le> rounded 24 (- 126) x" and "rounded 24 (- 126) x \<le> 2 powi e"
  using round_to_bounded [of x e "- 126" 127 24] assms by (simp_all add: fl32_def)

lemma rounded_pow2: "emin - int p + 1 \<le> e \<Longrightarrow> 0 < p \<Longrightarrow> rounded p emin (2 powi e) = 2 powi e"
  by (rule rounded_representable [of _ 1 e]) simp_all

lemma rounded_ge_pow2_mono:
  assumes "2 powi e \<le> x" and "emin - int p + 1 \<le> e" and "0 < p"
  shows "2 powi e \<le> rounded p emin x"
proof -
  have "rounded p emin (2 powi e) \<le> rounded p emin x"
    using assms(1,3) by (intro rounded_mono) simp_all
  then show ?thesis using assms(2,3) by (simp add: rounded_pow2)
qed

lemma eps_value:
  "literal (1 / 1000) = Finite (the_real (literal (1 / 1000)))"
  "2 powi (- 10) \<le> the_real (literal (1 / 1000))"
  "the_real (literal (1 / 1000)) \<le> 2 powi (- 9)"
  using literal_eps by auto

lemma raw_weight_Finite:
  assumes "0 \<le> r" and "r \<le> 2 powi 512"
  shows "raw_weight (Finite r) =
           Finite (rounded 53 (- 1022) (1 / rounded 53 (- 1022) (r + the_real (literal (1 / 1000)))))"
    and "2 powi (- 10) \<le> rounded 53 (- 1022) (r + the_real (literal (1 / 1000)))"
    and "0 < rounded 53 (- 1022) (1 / rounded 53 (- 1022) (r + the_real (literal (1 / 1000))))"
    and "rounded 53 (- 1022) (1 / rounded 53 (- 1022) (r + the_real (literal (1 / 1000)))) \<le> 2 powi 10"
proof -
  obtain c where c: "literal (1 / 1000) = Finite c" "2 powi (- 10) \<le> c" "c \<le> 2 powi (- 9)"
    using literal_eps by blast
  let ?y = "rounded 53 (- 1022) (r + c)"
  have "(2::real) powi (- 9) \<le> 2 powi 512" by (rule pow2_mono) simp
  then have "r + c \<le> 2 powi 512 + 2 powi 512" using assms(2) c(3) by linarith
  also have "\<dots> = 2 powi 513" using pow2_add [of 512 1] by simp
  finally have hi: "r + c \<le> 2 powi 513" .
  have lo: "2 powi (- 10) \<le> r + c" using assms(1) c(2) by linarith
  have nn: "0 \<le> r + c" using lo pow2_pos [of "- 10"] by linarith
  have y: "fl64 (r + c) = Finite ?y" "?y \<le> 2 powi 513"
    using fl64_bounded [OF nn hi] by simp_all
  have ylo: "2 powi (- 10) \<le> ?y" using lo by (rule rounded_ge_pow2_mono) simp_all
  then have ypos: "0 < ?y" using pow2_pos [of "- 10"] by linarith
  have "1 / ?y \<le> 1 / 2 powi (- 10)" using ylo by (intro divide_left_mono) simp_all
  also have "\<dots> = 2 powi 10" by (simp add: power_int_minus field_simps)
  finally have qhi: "1 / ?y \<le> 2 powi 10" .
  have "1 / 2 powi 513 \<le> 1 / ?y" using y(2) ypos by (intro divide_left_mono) simp_all
  moreover have "1 / 2 powi 513 = (2::real) powi (- 513)" by (simp add: power_int_minus field_simps)
  ultimately have qlo: "2 powi (- 513) \<le> 1 / ?y" by simp
  have q: "fl64 (1 / ?y) = Finite (rounded 53 (- 1022) (1 / ?y))"
    and qb: "rounded 53 (- 1022) (1 / ?y) \<le> 2 powi 10"
    using fl64_bounded [of "1 / ?y" 10] ypos qhi by simp_all
  have "2 powi (- 513) \<le> rounded 53 (- 1022) (1 / ?y)"
    using qlo by (rule rounded_ge_pow2_mono) simp_all
  then have qpos: "0 < rounded 53 (- 1022) (1 / ?y)" using pow2_pos [of "- 513"] by linarith
  have raw: "raw_weight (Finite r) = Finite (rounded 53 (- 1022) (1 / ?y))"
    using y(1) q ypos by (simp add: raw_weight_def c(1))
  show "raw_weight (Finite r) =
           Finite (rounded 53 (- 1022) (1 / rounded 53 (- 1022) (r + the_real (literal (1 / 1000)))))"
    using raw by (simp add: c(1))
  show "2 powi (- 10) \<le> rounded 53 (- 1022) (r + the_real (literal (1 / 1000)))"
    using ylo by (simp add: c(1))
  show "0 < rounded 53 (- 1022) (1 / rounded 53 (- 1022) (r + the_real (literal (1 / 1000))))"
    using qpos by (simp add: c(1))
  show "rounded 53 (- 1022) (1 / rounded 53 (- 1022) (r + the_real (literal (1 / 1000)))) \<le> 2 powi 10"
    using qb by (simp add: c(1))
qed

lemma n_add_Finite_bound: "n_add a b = Finite s \<Longrightarrow> \<bar>s\<bar> < 2 powi 1024"
proof (cases a; cases b)
  fix x y assume "a = Finite x" "b = Finite y" "n_add a b = Finite s"
  then have "round_to 53 (- 1022) 1023 (x + y) = Finite s" by (simp add: fl64_def)
  then show ?thesis using round_to_cases [of 53 "- 1022" 1023 "x + y"] by auto
qed simp_all

lemma sqrt_pow2_1024:
  assumes "0 \<le> s" and "s < 2 powi 1024"
  shows "sqrt s \<le> 2 powi 512"
proof -
  have e: "(2::real) powi 1024 = (2 powi 512)\<^sup>2"
    using pow2_add [of 512 512] by (simp add: power2_eq_square del: power_int_numeral)
  have "s \<le> (2 powi 512)\<^sup>2" using assms(2) unfolding e by (rule less_imp_le)
  then have "sqrt s \<le> sqrt ((2 powi 512)\<^sup>2)" by (rule real_sqrt_le_mono)
  also have "\<dots> = \<bar>2 powi 512\<bar>" by (rule real_sqrt_abs)
  also have "\<dots> = 2 powi 512" using pow2_pos [of 512] by (simp only: abs_of_pos)
  finally show ?thesis .
qed

lemma distanceTo_bounded:
  assumes "distanceTo a b = Finite r"
  shows "r \<le> 2 powi 512"
proof -
  obtain U V where sq: "distanceToSquared a b = n_add U V"
    by (simp add: distanceToSquared_def Let_def)
  from assms obtain s where s: "distanceToSquared a b = Finite s" and s0: "0 \<le> s"
    and r: "fl64 (sqrt s) = Finite r"
    unfolding distanceTo_def by (cases "distanceToSquared a b") (auto split: if_splits)
  have "\<bar>s\<bar> < 2 powi 1024" using s sq n_add_Finite_bound [of U V s] by simp
  then have "s < 2 powi 1024" by (simp only: abs_less_iff)
  with s0 have le: "sqrt s \<le> 2 powi 512" by (rule sqrt_pow2_1024)
  have nn: "0 \<le> sqrt s" using s0 by simp
  have "fl64 (sqrt s) = Finite (rounded 53 (- 1022) (sqrt s))"
    using nn le by (rule fl64_bounded(1)) simp_all
  with r have "r = rounded 53 (- 1022) (sqrt s)" by simp
  moreover have "rounded 53 (- 1022) (sqrt s) \<le> 2 powi 512"
    using nn le by (rule fl64_bounded(3)) simp_all
  ultimately show ?thesis by (simp only:)
qed

lemma distanceTo_good:
  assumes "distanceTo a b \<noteq> NaN"
  shows "distanceTo a b = PosInf \<or>
         (\<exists>r. distanceTo a b = Finite r \<and> 0 \<le> r \<and> r \<le> 2 powi 512)"
  using distanceTo_cases [of a b] distanceTo_bounded [of a b] assms
  by (auto simp: dist_ok_def)

lemma raw_weight_dist_ok:
  assumes "d = PosInf \<or> (\<exists>r. d = Finite r \<and> 0 \<le> r \<and> r \<le> 2 powi 512)"
  shows "dist_ok (raw_weight d)"
  using assms
proof
  assume "d = PosInf"
  then show ?thesis by (simp add: dist_ok_def)
next
  assume "\<exists>r. d = Finite r \<and> 0 \<le> r \<and> r \<le> 2 powi 512"
  then obtain r where r: "d = Finite r" "0 \<le> r" "r \<le> 2 powi 512" by blast
  show ?thesis
    using raw_weight_Finite(1,3) [OF r(2,3)] r(1) rounded_on_grid
    by (simp add: dist_ok_def less_imp_le)
qed

lemma raw_weight_is_pos:
  assumes "0 \<le> r" and "r \<le> 2 powi 512"
  shows "is_pos (raw_weight (Finite r))"
  using raw_weight_Finite(1,3) [OF assms] by simp

lemma raw_weight_antimono:
  assumes "d = PosInf \<or> (\<exists>r. d = Finite r \<and> 0 \<le> r \<and> r \<le> 2 powi 512)"
    and "d' = PosInf \<or> (\<exists>r. d' = Finite r \<and> 0 \<le> r \<and> r \<le> 2 powi 512)"
    and "n_le d d'"
  shows "\<exists>a b. raw_weight d' = Finite a \<and> raw_weight d = Finite b \<and> 0 \<le> a \<and> a \<le> b"
proof -
  have fin: "\<exists>b. raw_weight x = Finite b \<and> 0 \<le> b"
    if "x = PosInf \<or> (\<exists>r. x = Finite r \<and> 0 \<le> r \<and> r \<le> 2 powi 512)" for x
    using that raw_weight_Finite(1,3) by (auto simp: less_imp_le)
  show ?thesis
  proof (cases "d' = PosInf")
    case True
    then show ?thesis using fin [OF assms(1)] by auto
  next
    case False
    then obtain r' where r': "d' = Finite r'" "0 \<le> r'" "r' \<le> 2 powi 512" using assms(2) by blast
    then have "d \<noteq> PosInf" using assms(3) by (auto simp: n_le_def)
    then obtain r where r: "d = Finite r" "0 \<le> r" "r \<le> 2 powi 512" using assms(1) by blast
    let ?c = "the_real (literal (1 / 1000))"
    let ?y = "rounded 53 (- 1022) (r + ?c)"
    let ?y' = "rounded 53 (- 1022) (r' + ?c)"
    have le: "r \<le> r'" using assms(3) r(1) r'(1) by simp
    have c0: "0 \<le> ?c" using eps_value(2) pow2_pos [of "- 10"] by linarith
    have "?y \<le> ?y'" using le r(2) c0 by (intro rounded_mono) simp_all
    moreover have ypos: "0 < ?y" "0 < ?y'"
      using raw_weight_Finite(2) [OF r(2,3)] raw_weight_Finite(2) [OF r'(2,3)] pow2_pos [of "- 10"]
      by linarith+
    ultimately have "1 / ?y' \<le> 1 / ?y" by (intro divide_left_mono) simp_all
    moreover have "0 \<le> 1 / ?y'" using ypos by simp
    ultimately have "rounded 53 (- 1022) (1 / ?y') \<le> rounded 53 (- 1022) (1 / ?y)"
      by (intro rounded_mono) simp_all
    then show ?thesis
      using raw_weight_Finite(1,3) [OF r(2,3)] raw_weight_Finite(1,3) [OF r'(2,3)] r(1) r'(1)
      by (simp add: less_imp_le)
  qed
qed

lemma n_add_dist_ok: "dist_ok a \<Longrightarrow> dist_ok b \<Longrightarrow> dist_ok (n_add a b)"
  by (cases a; cases b) (auto simp: dist_ok_def [of "Finite _"] dist_ok_def [of NaN] dist_ok_def [of NegInf]
        dist_ok_def [of PosInf] intro: fl64_dist_ok)

lemma fl64_is_pos: "on_grid 53 (- 1022) x \<Longrightarrow> 0 < x \<Longrightarrow> is_pos (fl64 x)"
  using rounded_pos_grid [of 53 "- 1022" x] by (simp add: fl64_def round_to_def)

lemma n_add_is_pos:
  "dist_ok a \<Longrightarrow> dist_ok b \<Longrightarrow> is_pos a \<or> is_pos b \<Longrightarrow> is_pos (n_add a b)"
proof (cases a; cases b)
  fix x y assume ab: "a = Finite x" "b = Finite y" and ok: "dist_ok a" "dist_ok b"
    and pos: "is_pos a \<or> is_pos b"
  then have "on_grid 53 (- 1022) (x + y)" and "0 < x + y"
    by (auto simp: dist_ok_def intro: on_grid_add)
  then show ?thesis using ab by (simp add: fl64_is_pos)
qed (auto simp: dist_ok_def)

lemma foldl_n_add_dist_ok:
  "dist_ok a \<Longrightarrow> \<forall>w\<in>set ws. dist_ok w \<Longrightarrow> dist_ok (foldl n_add a ws)"
  by (induction ws arbitrary: a) (simp_all add: n_add_dist_ok)

lemma foldl_n_add_is_pos:
  "dist_ok a \<Longrightarrow> \<forall>w\<in>set ws. dist_ok w \<Longrightarrow> is_pos a \<or> (\<exists>w\<in>set ws. is_pos w) \<Longrightarrow>
   is_pos (foldl n_add a ws)"
proof (induction ws arbitrary: a)
  case Nil
  then show ?case by simp
next
  case (Cons w ws)
  have ok: "dist_ok (n_add a w)" using Cons.prems(1,2) by (simp add: n_add_dist_ok)
  show ?case
  proof (cases "is_pos a \<or> is_pos w")
    case True
    then have "is_pos (n_add a w)" using Cons.prems(1,2) by (intro n_add_is_pos) simp_all
    then show ?thesis using Cons.IH [OF ok] Cons.prems(2) by simp
  next
    case False
    then have "\<exists>w\<in>set ws. is_pos w" using Cons.prems(3) by auto
    then show ?thesis using Cons.IH [OF ok] Cons.prems(2) by simp
  qed
qed

lemma weight_mono:
  assumes "0 \<le> a" and "a \<le> b" and "dist_ok T" and "is_pos T"
  shows "n_le (to_f32 (n_div (Finite a) T)) (to_f32 (n_div (Finite b) T))"
proof (cases T)
  case (Finite t)
  then have t: "0 < t" using assms(4) by simp
  then have "0 \<le> a / t" and "a / t \<le> b / t" using assms(1,2) by (simp_all add: divide_right_mono)
  then have "n_le (fl64 (a / t)) (fl64 (b / t))" by (rule fl64_mono)
  moreover have "nonneg (fl64 (a / t))" using \<open>0 \<le> a / t\<close> by (rule fl64_nonneg)
  ultimately have "n_le (to_f32 (fl64 (a / t))) (to_f32 (fl64 (b / t)))" by (intro to_f32_mono)
  then show ?thesis using Finite t by simp
next
  case PosInf
  then show ?thesis by simp
qed (use assms(3,4) in \<open>simp_all add: dist_ok_def\<close>)

lemma closest_of_good:
  assumes "\<forall>b\<in>set bps. distanceTo v b \<noteq> NaN" and "e \<in> set (closest_of v bps n k)"
  shows "distance e = PosInf \<or> (\<exists>r. distance e = Finite r \<and> 0 \<le> r \<and> r \<le> 2 powi 512)"
proof -
  have "index e < length bps" and d: "distance e = distanceTo v (bps ! index e)"
    using closest_of_entry [OF assms(2)] by simp_all
  then have "distanceTo v (bps ! index e) \<noteq> NaN" using assms(1) by simp
  then show ?thesis unfolding d by (rule distanceTo_good)
qed

lemma closest_of_has_finite:
  assumes "\<forall>b\<in>set bps. distanceTo v b \<noteq> NaN" and "\<exists>b\<in>set bps. is_finite (distanceTo v b)"
    and "length bps = n" and "0 < k"
  shows "\<exists>e\<in>set (closest_of v bps n k). is_finite (distance e)"
proof -
  let ?c = "closest_of v bps n k"
  obtain j where j: "j < length bps" "is_finite (distanceTo v (bps ! j))"
    using assms(2) by (auto simp: in_set_conv_nth)
  show ?thesis
  proof (cases "j \<in> index ` set ?c")
    case True
    then obtain e where e: "e \<in> set ?c" "index e = j" by auto
    then have "distance e = distanceTo v (bps ! j)" using closest_of_entry [of e v bps n k] by simp
    then have "is_finite (distance e)" using j(2) by simp
    then show ?thesis using e(1) by blast
  next
    case False
    have "length ?c = min k n" using assms(3) by (rule length_closest_of)
    then have "?c \<noteq> []" using assms(3,4) j(1) by auto
    then obtain e where e: "e \<in> set ?c" by (cases ?c) auto
    have "closer e \<lparr>index = j, distance = distanceTo v (bps ! j)\<rparr>"
      using assms(1) e _ j(1) False by (rule closest_of_beats_rest) (use assms(3) j(1) in simp)
    moreover have "dist_ok (distance e)" using assms(1) e by (rule closest_of_dist_ok)
    ultimately have "is_finite (distance e)"
      using j(2) by (cases "distance e"; cases "distanceTo v (bps ! j)") (auto simp: closer_def dist_ok_def)
    then show ?thesis using e by blast
  qed
qed

lemma totalWeight_ok:
  assumes "\<forall>b\<in>set bps. distanceTo v b \<noteq> NaN" and "\<exists>b\<in>set bps. is_finite (distanceTo v b)"
    and "length bps = n" and "0 < k"
  shows "dist_ok (totalWeight_of (closest_of v bps n k))"
    and "is_pos (totalWeight_of (closest_of v bps n k))"
proof -
  let ?c = "closest_of v bps n k"
  have "dist_ok (raw_weight (distance e))" if "e \<in> set ?c" for e
    using closest_of_good [OF assms(1) that] by (rule raw_weight_dist_ok)
  then have ok: "\<forall>w\<in>set (weights_of ?c). dist_ok w" by (auto simp: weights_of_def)
  have z: "dist_ok (Finite 0)" by (simp add: dist_ok_def)
  show "dist_ok (totalWeight_of ?c)"
    unfolding totalWeight_of_def using z ok by (rule foldl_n_add_dist_ok)
  obtain e where e: "e \<in> set ?c" "is_finite (distance e)"
    using closest_of_has_finite [OF assms] by blast
  then obtain r where r: "distance e = Finite r" "0 \<le> r" "r \<le> 2 powi 512"
    using closest_of_good [OF assms(1) e(1)] by auto
  then have "is_pos (raw_weight (distance e))" by (simp add: raw_weight_is_pos)
  then have "\<exists>w\<in>set (weights_of ?c). is_pos w" using e(1) by (auto simp: weights_of_def)
  then show "is_pos (totalWeight_of ?c)"
    unfolding totalWeight_of_def using z ok by (intro foldl_n_add_is_pos) simp_all
qed

lemma far_pair_closest:
  "closest_of (Vector3 (Finite 0) (Finite 0) (Finite 0)) (bonePositions_of far_pair_skeleton)
     (length (bones far_pair_skeleton)) 2 =
     [\<lparr>index = 0, distance = PosInf\<rparr>, \<lparr>index = 1, distance = PosInf\<rparr>]"
proof -
  have "[0..<2] = [0, Suc 0]" by (simp add: upt_rec)
  then show ?thesis
    by (simp add: closest_of_def distances_of_def bonePositions_of_def far_pair_skeleton_def
        far_distance farther_distance array_sort_def compare_distance_def n_sub_def)
qed

text \<open>
  Claim C3, in the arithmetic of the code.  Take a vertex for which no computed distance to a
  bone is NaN and at least one is finite, and two of its selected slots \<open>i\<close> and \<open>j\<close>.  When
  the computed distance of the bone of slot \<open>i\<close> is at most that of the bone of slot \<open>j\<close>, the
  weight written for slot \<open>i\<close> is at least the weight written for slot \<open>j\<close>.
\<close>

theorem autoSkin_weights_monotone:
  assumes "position g = Some vs" and "v < length vs"
    and "i < min k (length (bones sk))" and "j < min k (length (bones sk))"
    and "\<forall>b\<in>set (bones sk). distanceTo (vs ! v) (getWorldPosition b) \<noteq> NaN"
    and "\<exists>b\<in>set (bones sk). is_finite (distanceTo (vs ! v) (getWorldPosition b))"
  shows "let bps = bonePositions_of sk;
             c = closest_of (vs ! v) bps (length (bones sk)) k;
             ws = written_weights (autoSkin g sk k) k v
         in n_le (distanceTo (vs ! v) (bps ! index (c ! i))) (distanceTo (vs ! v) (bps ! index (c ! j)))
            \<longrightarrow> n_le (ws ! j) (ws ! i)"
proof -
  let ?bps = "bonePositions_of sk"
  let ?c = "closest_of (vs ! v) ?bps (length (bones sk)) k"
  let ?ws = "written_weights (autoSkin g sk k) k v"
  have ok: "\<forall>b\<in>set ?bps. distanceTo (vs ! v) b \<noteq> NaN"
    using assms(5) by (simp add: set_bonePositions_of)
  have fin: "\<exists>b\<in>set ?bps. is_finite (distanceTo (vs ! v) b)"
    using assms(6) by (simp add: set_bonePositions_of)
  have k: "0 < k" using assms(3) by simp
  have len: "length ?c = min k (length (bones sk))" by (simp add: length_closest_of)
  then have ij: "i < length ?c" "i < k" "j < length ?c" "j < k" using assms(3,4) by simp_all
  then have mem: "?c ! i \<in> set ?c" "?c ! j \<in> set ?c" by simp_all
  have di: "distance (?c ! i) = distanceTo (vs ! v) (?bps ! index (?c ! i))"
    and dj: "distance (?c ! j) = distanceTo (vs ! v) (?bps ! index (?c ! j))"
    using mem by (simp_all add: closest_of_entry)
  have t: "dist_ok (totalWeight_of ?c)" "is_pos (totalWeight_of ?c)"
    using totalWeight_ok [OF ok fin _ k] by simp_all
  have wi: "?ws ! i = to_f32 (n_div (raw_weight (distance (?c ! i))) (totalWeight_of ?c))"
    and wj: "?ws ! j = to_f32 (n_div (raw_weight (distance (?c ! j))) (totalWeight_of ?c))"
    using assms(1,2) ij by (simp_all add: written_weights_nth influence_slot_selected)
  have "n_le (?ws ! j) (?ws ! i)" if le: "n_le (distance (?c ! i)) (distance (?c ! j))"
  proof -
    obtain a b where ab: "raw_weight (distance (?c ! j)) = Finite a"
        "raw_weight (distance (?c ! i)) = Finite b" "0 \<le> a" "a \<le> b"
      using raw_weight_antimono [OF closest_of_good [OF ok mem(1)] closest_of_good [OF ok mem(2)] le]
      by blast
    show ?thesis unfolding wi wj ab(1,2) using ab(3,4) t by (rule weight_mono)
  qed
  then show ?thesis unfolding Let_def di dj by blast
qed

theorem autoSkin_weights_monotone_witness:
  "map (\<lambda>b. distanceTo (Vector3 (Finite 0) (Finite 0) (Finite 0)) (getWorldPosition b))
      (bones example_skeleton) = [Finite 2, Finite 1, Finite 1] \<and>
   n_le (distanceTo (Vector3 (Finite 0) (Finite 0) (Finite 0)) (Vector3 (Finite 1) (Finite 0) (Finite 0)))
        (distanceTo (Vector3 (Finite 0) (Finite 0) (Finite 0)) (Vector3 (Finite 2) (Finite 0) (Finite 0))) \<and>
   n_le (written_weights (autoSkin example_geometry example_skeleton 3) 3 0 ! 2)
        (written_weights (autoSkin example_geometry example_skeleton 3) 3 0 ! 0)"
proof -
  let ?vs = "[Vector3 (Finite 0) (Finite 0) (Finite 0), Vector3 (Finite 1) (Finite 0) (Finite 0)]"
  have i: "(0::nat) < min 3 (length (bones example_skeleton))"
    and j: "(2::nat) < min 3 (length (bones example_skeleton))"
    by (simp_all add: example_boneCount)
  have v: "(0::nat) < length ?vs" by simp
  have ok: "\<forall>b\<in>set (bones example_skeleton). distanceTo (?vs ! 0) (getWorldPosition b) \<noteq> NaN"
    by (simp add: example_skeleton_def example_distanceTo)
  have fin: "\<exists>b\<in>set (bones example_skeleton). is_finite (distanceTo (?vs ! 0) (getWorldPosition b))"
    by (simp add: example_skeleton_def example_distanceTo)
  note th = autoSkin_weights_monotone [OF example_position v i j ok fin,
      unfolded Let_def nth_Cons_0 example_closest3]
  have "n_le (written_weights (autoSkin example_geometry example_skeleton 3) 3 0 ! 2)
        (written_weights (autoSkin example_geometry example_skeleton 3) 3 0 ! 0)"
    using th by (simp add: example_bonePositions example_distanceTo)
  then show ?thesis by (simp add: example_distanceTo example_skeleton_def)
qed

theorem autoSkin_weights_monotone_counterexample:
  "map index (closest_of (Vector3 (Finite 0) (Finite 0) (Finite 0))
      (bonePositions_of far_pair_skeleton) (length (bones far_pair_skeleton)) 2) = [0, 1] \<and>
   euclidean (Vector3 (Finite 0) (Finite 0) (Finite 0)) (bonePositions_of far_pair_skeleton ! 0)
     \<le> euclidean (Vector3 (Finite 0) (Finite 0) (Finite 0)) (bonePositions_of far_pair_skeleton ! 1) \<and>
   \<not> n_le (written_weights (autoSkin example_geometry far_pair_skeleton 2) 2 0 ! 1)
          (written_weights (autoSkin example_geometry far_pair_skeleton 2) 2 0 ! 0)"
proof -
  have v: "(0::nat) < length [Vector3 (Finite 0) (Finite 0) (Finite 0), Vector3 (Finite 1) (Finite 0) (Finite 0)]"
    by simp
  have "[0..<2] = [0, Suc 0]" by (simp add: upt_rec)
  then have "written_weights (autoSkin example_geometry far_pair_skeleton 2) 2 0 = [NaN, NaN]"
    using written_weights_autoSkin [OF example_position v, of far_pair_skeleton 2]
    by (simp add: vertex_influences_def far_pair_closest [simplified] influence_slot_def
          weights_of_def totalWeight_of_def signed_inf_def)
  then have "\<not> n_le (written_weights (autoSkin example_geometry far_pair_skeleton 2) 2 0 ! 1)
          (written_weights (autoSkin example_geometry far_pair_skeleton 2) 2 0 ! 0)"
    by (simp add: n_le_def)
  moreover have "euclidean (Vector3 (Finite 0) (Finite 0) (Finite 0)) (Vector3 (Finite far_away) (Finite 0) (Finite 0))
     \<le> euclidean (Vector3 (Finite 0) (Finite 0) (Finite 0)) (Vector3 (Finite farther_away) (Finite 0) (Finite 0))"
    unfolding euclidean_def
    by (rule real_sqrt_le_mono) (simp add: far_away_def farther_away_def power2_eq_square flip: power_add)
  ultimately show ?thesis
    by (simp add: far_pair_closest) (simp add: bonePositions_of_def far_pair_skeleton_def)
qed


section \<open>Properties of the plugin manager\<close>

lemma has_map_delete: "map_of (map_delete k kvs) k = None"
  by (induction kvs) (simp_all add: map_delete_def)

lemma has_iff_get: "has m pid \<longleftrightarrow> get m pid \<noteq> None"
  by (simp add: has_def get_def)

text \<open>
  Claim C9.  When \<^verbatim>\<open>onInit\<close> of the plugin rejects, \<^verbatim>\<open>register\<close> leaves the manager as it
  was.  For a plugin that is not yet registered, the case in which \<^verbatim>\<open>onInit\<close> is called, it
  throws a \<^verbatim>\<open>PluginError\<close> with code \<^verbatim>\<open>INIT_FAILED\<close> for that plugin, the plugin stays
  unregistered, and the count and the initialization order are unchanged.  For an id that is
  already registered it throws \<^verbatim>\<open>ALREADY_REGISTERED\<close> before the hook is called.
\<close>

theorem register_atomic_on_failure:
  assumes "onInit p = Rejects reason"
  shows "snd (register m p) = m \<and>
         (\<not> has m (plugin_id p) \<longrightarrow>
            (\<exists>e. fst (register m p) = Inl e \<and> code e = INIT_FAILED \<and>
                 pluginId e = plugin_id p \<and> originalCause e = Some reason) \<and>
            \<not> has (snd (register m p)) (plugin_id p) \<and>
            count (snd (register m p)) = count m \<and>
            initializationOrder (snd (register m p)) = initializationOrder m) \<and>
         (has m (plugin_id p) \<longrightarrow>
            (\<exists>e. fst (register m p) = Inl e \<and> code e = ALREADY_REGISTERED))"
  using assms by (simp add: register_def new_PluginError_def)

theorem register_atomic_on_failure_witness:
  "onInit failing_plugin = Rejects ''no init'' \<and>
   \<not> has example_manager (plugin_id failing_plugin) \<and>
   snd (register example_manager failing_plugin) = example_manager \<and>
   (\<exists>e. fst (register example_manager failing_plugin) = Inl e \<and>
        code e = INIT_FAILED \<and> pluginId e = ''broken'') \<and>
   count (snd (register example_manager failing_plugin)) = 1 \<and>
   has manager_with_broken (plugin_id failing_plugin) \<and>
   (\<exists>e. fst (register manager_with_broken failing_plugin) = Inl e \<and>
        code e = ALREADY_REGISTERED)"
proof -
  have r: "onInit failing_plugin = Rejects ''no init''"
    by (simp add: failing_plugin_def)
  have h: "\<not> has example_manager (plugin_id failing_plugin)"
    by (simp add: has_def example_manager_def failing_plugin_def)
  have h': "has manager_with_broken (plugin_id failing_plugin)"
    by (simp add: has_def manager_with_broken_def failing_plugin_def)
  have i: "plugin_id failing_plugin = ''broken''" by (simp add: failing_plugin_def)
  have c: "count example_manager = 1" by (simp add: count_def example_manager_def)
  show ?thesis
    using register_atomic_on_failure [OF r, of example_manager]
      register_atomic_on_failure [OF r, of manager_with_broken] r h h'
    unfolding i c by blast
qed

text \<open>
  Claim C10.  \<^verbatim>\<open>unregister\<close> throws exactly when the id is not registered, and then with code
  \<^verbatim>\<open>NOT_FOUND\<close>.  When the id is registered the call returns, whatever \<^verbatim>\<open>onDestroy\<close> does, and
  afterwards the id is neither registered nor in the initialization order.
\<close>

theorem unregister_not_found_iff:
  "((\<exists>e. fst (unregister m pid) = Inl e) \<longleftrightarrow> \<not> has m pid) \<and>
   (\<forall>e. fst (unregister m pid) = Inl e \<longrightarrow> code e = NOT_FOUND \<and> pluginId e = pid) \<and>
   (has m pid \<longrightarrow>
      fst (unregister m pid) = Inr () \<and>
      \<not> has (snd (unregister m pid)) pid \<and>
      pid \<notin> set (initializationOrder (snd (unregister m pid))))"
proof (cases "get m pid")
  case None
  then show ?thesis
    by (simp add: unregister_def has_iff_get new_PluginError_def)
next
  case (Some p)
  then show ?thesis
    by (cases "onDestroy p")
       (simp_all add: unregister_def has_iff_get get_def has_map_delete)
qed

theorem unregister_not_found_iff_witness:
  "has manager_with_broken ''broken'' \<and>
   get manager_with_broken ''broken'' = Some failing_plugin \<and>
   onDestroy failing_plugin = Rejects ''no destroy'' \<and>
   fst (unregister manager_with_broken ''broken'') = Inr () \<and>
   \<not> has (snd (unregister manager_with_broken ''broken'')) ''broken'' \<and>
   ''broken'' \<notin> set (initializationOrder (snd (unregister manager_with_broken ''broken''))) \<and>
   \<not> has example_manager ''broken'' \<and>
   (\<exists>e. fst (unregister example_manager ''broken'') = Inl e \<and> code e = NOT_FOUND)"
proof -
  have h: "has manager_with_broken ''broken''"
    by (simp add: has_def manager_with_broken_def)
  have g: "get manager_with_broken ''broken'' = Some failing_plugin"
    by (simp add: get_def manager_with_broken_def)
  have d: "onDestroy failing_plugin = Rejects ''no destroy''"
    by (simp add: failing_plugin_def)
  have n: "\<not> has example_manager ''broken''"
    by (simp add: has_def example_manager_def)
  show ?thesis
    using unregister_not_found_iff [of manager_with_broken "''broken''"]
      unregister_not_found_iff [of example_manager "''broken''"] h g d n
    by blast
qed

end
